(* ===== verification/C_Model.thy ===== *)
theory C_Model
  imports Main "HOL-Library.Word"
begin

text \<open>
  Prelude: the fragment of C that every component of the model shares.

  A C function that may run into undefined behaviour returns a \<open>run\<close>: \<open>Inl\<close> of the
  fault it hits, or \<open>Inr\<close> of its result. Memory is a list: a pointer into a buffer is
  its offset, a read outside the list is the fault \<open>Out_Of_Bounds\<close>, and a buffer that
  \<open>malloc\<close> returned holds \<open>None\<close> where nothing has been written yet. C strings are
  lists without the terminating NUL.

  The collections \<open>run_simps\<close> (evaluation of runs and memory accesses) and
  \<open>wire_simps\<close> (length-prefixed lists) are what the component proofs pass to the
  simplifier.
\<close>

named_theorems run_simps "evaluation of runs and of memory accesses"
named_theorems wire_simps "lists of length-prefixed byte strings"

section \<open>Faults and runs\<close>

datatype fault =
    Out_Of_Bounds      \<comment> \<open>access outside the object\<close>
  | Uninitialised      \<comment> \<open>a value that was never written is used\<close>
  | Null_Deref         \<comment> \<open>access through NULL\<close>
  | Signed_Overflow    \<comment> \<open>signed arithmetic leaves the range of the type\<close>
  | Use_After_Free     \<comment> \<open>access to a released object\<close>
  | Bad_Free           \<comment> \<open>release of something that is not a live object\<close>
  | Wrong_Type         \<comment> \<open>access to an object as if it were of another type\<close>

type_synonym 'a run = "fault + 'a"

fun run_bind :: "'a run \<Rightarrow> ('a \<Rightarrow> 'b run) \<Rightarrow> 'b run" where
  "run_bind (Inl f) k = Inl f"
| "run_bind (Inr x) k = k x"

lemma run_bind_cong [fundef_cong]:
  assumes "m = m'" and "\<And>x. m' = Inr x \<Longrightarrow> k x = k' x"
  shows "run_bind m k = run_bind m' k'"
  using assms by (cases m') auto

lemma run_bind_Inr_iff [run_simps]:
  "run_bind m k = Inr y \<longleftrightarrow> (\<exists>x. m = Inr x \<and> k x = Inr y)"
  by (cases m) auto

lemma run_bind_Inl_iff [run_simps]:
  "run_bind m k = Inl f \<longleftrightarrow> m = Inl f \<or> (\<exists>x. m = Inr x \<and> k x = Inl f)"
  by (cases m) auto

lemma run_bind_InrE:
  assumes "run_bind m k = Inr y"
  obtains x where "m = Inr x" and "k x = Inr y"
  using assms by (cases m) auto

lemma run_bind_assoc: "run_bind (run_bind m k) h = run_bind m (\<lambda>x. run_bind (k x) h)"
  by (cases m) auto

text \<open>A run that ends without undefined behaviour.\<close>

definition safe :: "'a run \<Rightarrow> bool" where
  "safe r \<longleftrightarrow> \<not> isl r"

lemma safe_simps [simp]: "safe (Inr x)" "\<not> safe (Inl f)"
  by (simp_all add: safe_def)

lemma safeE: "safe r \<Longrightarrow> (\<And>x. r = Inr x \<Longrightarrow> P) \<Longrightarrow> P"
  by (cases r) auto

lemma safe_bindI:
  "safe m \<Longrightarrow> (\<And>x. m = Inr x \<Longrightarrow> safe (k x)) \<Longrightarrow> safe (run_bind m k)"
  by (cases m) auto

text \<open>A run that ends without undefined behaviour in a result with property \<open>Q\<close>.\<close>

definition ensures :: "'a run \<Rightarrow> ('a \<Rightarrow> bool) \<Rightarrow> bool" where
  "ensures r Q \<longleftrightarrow> (\<exists>x. r = Inr x \<and> Q x)"

lemma ensures_simps [simp]:
  "ensures (Inr x) Q \<longleftrightarrow> Q x"
  "\<not> ensures (Inl f) Q"
  "ensures (run_bind m k) Q \<longleftrightarrow> ensures m (\<lambda>x. ensures (k x) Q)"
  by (cases m; auto simp: ensures_def)+

lemma ensures_mono: "ensures r P \<Longrightarrow> (\<And>x. r = Inr x \<Longrightarrow> P x \<Longrightarrow> Q x) \<Longrightarrow> ensures r Q"
  by (auto simp: ensures_def)

lemma safe_ensures: "safe r \<longleftrightarrow> ensures r (\<lambda>_. True)"
  by (cases r) (auto simp: ensures_def)

lemma ensures_safe: "ensures r Q \<Longrightarrow> safe r"
  by (auto simp: ensures_def)

section \<open>Memory\<close>

type_synonym byte = "8 word"

text \<open>A buffer whose bytes are all initialised.\<close>

definition rd :: "byte list \<Rightarrow> nat \<Rightarrow> byte run" where
  "rd m i = (if i < length m then Inr (m ! i) else Inl Out_Of_Bounds)"

definition rdn :: "byte list \<Rightarrow> nat \<Rightarrow> nat \<Rightarrow> byte list run" where
  "rdn m i n = (if i + n \<le> length m then Inr (take n (drop i m)) else Inl Out_Of_Bounds)"

lemma rd_append [run_simps]:
  "rd (xs @ y # ys) (length xs) = Inr y"
  "rd (y # ys) 0 = Inr y"
  by (simp_all add: rd_def)

lemma rd_Cons [run_simps]: "rd (x # xs) (Suc k) = rd xs k"
  by (simp add: rd_def)

lemma rd_append_Cons [run_simps]:
  "rd (xs @ y # ys) (Suc (length xs + k)) = rd ys k"
  "rd (xs @ y # ys) (Suc (length xs)) = rd ys 0"
  by (simp_all add: rd_def nth_append)

lemma rd_Inr_iff: "rd m i = Inr b \<longleftrightarrow> i < length m \<and> m ! i = b"
  by (auto simp: rd_def)

lemma rd_Inl_iff [run_simps]: "rd m i = Inl f \<longleftrightarrow> length m \<le> i \<and> f = Out_Of_Bounds"
  by (auto simp: rd_def)

lemma ensures_rd [simp]: "ensures (rd m i) Q \<longleftrightarrow> i < length m \<and> Q (m ! i)"
  by (auto simp: rd_def)

lemma rdn_append [run_simps]:
  "length ys = n \<Longrightarrow> rdn (xs @ ys @ zs) (length xs) n = Inr ys"
  "length ys = n \<Longrightarrow> rdn (ys @ zs) 0 n = Inr ys"
  by (simp_all add: rdn_def)

lemma rdn_Inr_iff [run_simps]:
  "rdn m i n = Inr bs \<longleftrightarrow> i + n \<le> length m \<and> bs = take n (drop i m)"
  by (auto simp: rdn_def)

lemma rdn_Inl_iff [run_simps]: "rdn m i n = Inl f \<longleftrightarrow> length m < i + n \<and> f = Out_Of_Bounds"
  by (auto simp: rdn_def)

text \<open>A buffer from \<open>malloc\<close> or \<open>realloc\<close>: \<open>None\<close> is a byte never written.\<close>

type_synonym block = "byte option list"

definition malloc_block :: "nat \<Rightarrow> block" where
  "malloc_block n = replicate n None"

text \<open>\<open>realloc\<close> to a larger size keeps the bytes and adds unwritten ones.\<close>

definition realloc_block :: "block \<Rightarrow> nat \<Rightarrow> block" where
  "realloc_block b n = take n b @ replicate (n - length b) None"

definition rd_cell :: "block \<Rightarrow> nat \<Rightarrow> byte run" where
  "rd_cell b i =
     (if i < length b then (case b ! i of None \<Rightarrow> Inl Uninitialised | Some x \<Rightarrow> Inr x)
      else Inl Out_Of_Bounds)"

definition rdn_cell :: "block \<Rightarrow> nat \<Rightarrow> nat \<Rightarrow> byte list run" where
  "rdn_cell b i n =
     (if i + n \<le> length b
      then (if None \<in> set (take n (drop i b)) then Inl Uninitialised
            else Inr (map the (take n (drop i b))))
      else Inl Out_Of_Bounds)"

definition wrn_cell :: "block \<Rightarrow> nat \<Rightarrow> byte list \<Rightarrow> block run" where
  "wrn_cell b i bs =
     (if i + length bs \<le> length b
      then Inr (take i b @ map Some bs @ drop (i + length bs) b)
      else Inl Out_Of_Bounds)"

lemma rd_cell_append [run_simps]:
  "rd_cell (xs @ Some y # ys) (length xs) = Inr y"
  "rd_cell (Some y # ys) 0 = Inr y"
  by (simp_all add: rd_cell_def)

lemma rdn_cell_append [run_simps]:
  "length ys = n \<Longrightarrow> rdn_cell (xs @ map Some ys @ zs) (length xs) n = Inr ys"
proof -
  assume "length ys = n"
  moreover have "None \<notin> set (map Some ys)" by auto
  moreover have "map the (map Some ys) = ys" by (simp add: o_def)
  ultimately show ?thesis by (simp add: rdn_cell_def)
qed

lemma wrn_cell_append [run_simps]:
  "length bs \<le> n \<Longrightarrow>
   wrn_cell (xs @ replicate n None) (length xs) bs
     = Inr (xs @ map Some bs @ replicate (n - length bs) None)"
  by (simp add: wrn_cell_def)

lemma wrn_cell_overflow [run_simps]:
  "length b < i + length bs \<Longrightarrow> wrn_cell b i bs = Inl Out_Of_Bounds"
  by (simp add: wrn_cell_def)

lemma length_malloc_block [simp]: "length (malloc_block n) = n"
  by (simp add: malloc_block_def)

lemma length_realloc_block [simp]: "length b \<le> n \<Longrightarrow> length (realloc_block b n) = n"
  by (simp add: realloc_block_def)

lemma realloc_block_grow [run_simps]:
  "length xs + k \<le> n \<Longrightarrow>
   realloc_block (xs @ replicate k None) n = xs @ replicate (n - length xs) None"
  by (simp add: realloc_block_def replicate_add [symmetric])

section \<open>C strings\<close>

text \<open>The C string that starts at the head of a buffer: everything up to the first NUL.\<close>

definition c_str :: "byte list \<Rightarrow> byte list" where
  "c_str bs = takeWhile (\<lambda>b. b \<noteq> 0) bs"

definition strlen :: "byte list \<Rightarrow> nat" where
  "strlen bs = length (c_str bs)"

lemma c_str_no_nul [simp]: "0 \<notin> set (c_str bs)"
  unfolding c_str_def by (auto dest: set_takeWhileD)

lemma c_str_id: "0 \<notin> set bs \<Longrightarrow> c_str bs = bs"
  by (auto simp: c_str_def)

lemma c_str_append_nul: "0 \<notin> set s \<Longrightarrow> c_str (s @ 0 # t) = s"
  unfolding c_str_def by (subst takeWhile_append2) auto

lemma length_c_str_le: "length (c_str bs) \<le> length bs"
  by (simp add: c_str_def length_takeWhile_le)

lemma length_c_str_nul: "n < length m \<Longrightarrow> m ! n = 0 \<Longrightarrow> length (c_str m) \<le> n"
  unfolding c_str_def by (metis (mono_tags, lifting) linorder_not_le nth_mem set_takeWhileD takeWhile_nth)

text \<open>
  \<open>strcmp\<close> compares as unsigned bytes; only the sign of its result is specified, and the
  model returns \<open>-1\<close>, \<open>0\<close> or \<open>1\<close>.
\<close>

fun strcmp :: "'a::linorder list \<Rightarrow> 'a list \<Rightarrow> int" where
  "strcmp [] [] = 0"
| "strcmp [] (y # ys) = -1"
| "strcmp (x # xs) [] = 1"
| "strcmp (x # xs) (y # ys) = (if x < y then -1 else if y < x then 1 else strcmp xs ys)"

lemma strcmp_eq_0_iff [simp]: "strcmp xs ys = 0 \<longleftrightarrow> xs = ys"
  by (induction xs ys rule: strcmp.induct) auto

lemma strcmp_refl: "strcmp xs xs = 0"
  by simp

lemma strcmp_antisym: "strcmp ys xs = - strcmp xs ys"
  by (induction xs ys rule: strcmp.induct) auto

lemma strcmp_trans: "strcmp xs ys < 0 \<Longrightarrow> strcmp ys zs < 0 \<Longrightarrow> strcmp xs zs < 0"
proof (induction xs ys arbitrary: zs rule: strcmp.induct)
  case (2 y ys)
  then show ?case by (cases zs) auto
next
  case (4 x xs y ys)
  then show ?case by (cases zs) (auto split: if_splits)
qed auto

section \<open>Length-prefixed lists\<close>

text \<open>
  The wire format of ALPN: each name is preceded by one byte that holds its length
  (RFC 7301). A name that the format can carry is not empty and has at most 255 bytes.
\<close>

definition wire_name :: "byte list \<Rightarrow> byte list" where
  "wire_name p = word_of_nat (length p) # p"

definition wire :: "byte list list \<Rightarrow> byte list" where
  "wire ps = concat (map wire_name ps)"

definition valid_name :: "byte list \<Rightarrow> bool" where
  "valid_name p \<longleftrightarrow> p \<noteq> [] \<and> length p \<le> 255"

lemma wire_simps' [simp, wire_simps]:
  "wire [] = []" "wire (p # ps) = wire_name p @ wire ps"
  "wire (ps @ qs) = wire ps @ wire qs"
  by (simp_all add: wire_def)

lemma length_wire_name [simp, wire_simps]: "length (wire_name p) = Suc (length p)"
  by (simp add: wire_name_def)

lemma wire_eq_Nil_iff [simp, wire_simps]: "wire ps = [] \<longleftrightarrow> ps = []"
  by (cases ps) (simp_all add: wire_name_def)

lemma unat_byte_le [simp]: "unat (b :: byte) \<le> 255"
  using unsigned_less [of b, where ?'a = nat] by simp

lemma unat_length_byte [wire_simps]: "n \<le> 255 \<Longrightarrow> unat (word_of_nat n :: byte) = n"
  by (simp add: unat_of_nat)

lemma valid_nameD: "valid_name p \<Longrightarrow> p \<noteq> []" "valid_name p \<Longrightarrow> length p \<le> 255"
  by (simp_all add: valid_name_def)

lemma length_wire: "length (wire ps) = sum_list (map length ps) + length ps"
  by (induction ps) auto

section \<open>The first success\<close>

fun first_some :: "'a option list \<Rightarrow> 'a option" where
  "first_some [] = None"
| "first_some (None # xs) = first_some xs"
| "first_some (Some x # xs) = Some x"

lemma first_some_None_iff: "first_some xs = None \<longleftrightarrow> set xs \<subseteq> {None}"
  by (induction xs rule: first_some.induct) auto

end
