(* ===== verification/Interfaces.thy ===== *)
theory Interfaces
  imports C_Model
begin

text \<open>
  The contracts between components, as locales. A client's lemmas are proved once from the
  contract; the component that provides the operations interprets the locale on the model
  of its code.
\<close>

section \<open>A format for lists of names\<close>

text \<open>
  An encoder and a parser of name lists. The parser may normalise the names it reads
  (\<open>canon\<close>, for C the cut at the first NUL) and refuses exactly what no list encodes to.
\<close>

locale name_format =
  fixes encode :: "'n list \<Rightarrow> 'b list"
    and decode :: "'b list \<Rightarrow> 'n list option"
    and valid :: "'n list \<Rightarrow> bool"
    and canon :: "'n \<Rightarrow> 'n"
  assumes decode_encode: "valid ns \<Longrightarrow> decode (encode ns) = Some (map canon ns)"
    and decode_onto: "decode bs = Some ms \<Longrightarrow> \<exists>ns. valid ns \<and> encode ns = bs \<and> ms = map canon ns"
begin

lemma decode_Some_iff: "decode bs = Some ms \<longleftrightarrow> (\<exists>ns. valid ns \<and> encode ns = bs \<and> ms = map canon ns)"
  using decode_encode decode_onto by blast

lemma decode_None_iff: "decode bs = None \<longleftrightarrow> (\<forall>ns. valid ns \<longrightarrow> encode ns \<noteq> bs)"
  using decode_encode decode_onto by (metis not_Some_eq)

lemma roundtrip:
  assumes "valid ns" and "\<And>n. n \<in> set ns \<Longrightarrow> canon n = n"
  shows "decode (encode ns) = Some ns"
proof -
  have "map canon ns = ns" by (rule map_idI) (rule assms(2))
  then show ?thesis using decode_encode [OF assms(1)] by simp
qed

lemma encode_inj:
  assumes "valid ns" and "valid ms" and "encode ns = encode ms"
    and "\<And>n. n \<in> set ns \<union> set ms \<Longrightarrow> canon n = n"
  shows "ns = ms"
proof -
  have "decode (encode ns) = Some ns"
    using assms(1) by (rule roundtrip) (rule assms(4), simp)
  moreover have "decode (encode ms) = Some ms"
    using assms(2) by (rule roundtrip) (rule assms(4), simp)
  ultimately show ?thesis using assms(3) by (metis option.inject)
qed

end

section \<open>A comparison that ranks candidates\<close>

text \<open>
  \<open>cmp a b < 0\<close> says that \<open>b\<close> is preferred to \<open>a\<close>. The contract is that of a weak order.
\<close>

locale preference =
  fixes cmp :: "'a \<Rightarrow> 'a \<Rightarrow> int"
  assumes cmp_asym: "cmp a b < 0 \<Longrightarrow> \<not> cmp b a < 0"
    and cmp_split: "cmp a c < 0 \<Longrightarrow> cmp a b < 0 \<or> cmp b c < 0"

text \<open>Keep the candidate unless the next one is preferred: the loop of a selection.\<close>

primrec best_of :: "('a \<Rightarrow> 'a \<Rightarrow> int) \<Rightarrow> 'a \<Rightarrow> 'a list \<Rightarrow> 'a" where
  "best_of cmp out [] = out"
| "best_of cmp out (x # xs) = best_of cmp (if cmp out x < 0 then x else out) xs"

context preference
begin

lemma best_of_in: "best_of cmp out xs \<in> set (out # xs)"
  by (induction xs arbitrary: out) (auto split: if_splits)

lemma best_of_top: "x \<in> set (out # xs) \<Longrightarrow> \<not> cmp (best_of cmp out xs) x < 0"
proof (induction xs arbitrary: out x)
  case Nil
  then show ?case using cmp_asym by auto
next
  case (Cons y ys)
  let ?out = "if cmp out y < 0 then y else out"
  have top: "\<not> cmp (best_of cmp ?out ys) ?out < 0"
    by (rule Cons.IH) simp
  show ?case
  proof (cases "x \<in> set ys")
    case True
    then show ?thesis using Cons.IH [of x ?out] by simp
  next
    case False
    then have "x = out \<or> x = y" using Cons.prems by auto
    then have "\<not> cmp ?out x < 0"
      using cmp_asym by (auto split: if_splits)
    then show ?thesis
      using cmp_split [of "best_of cmp ?out ys" x ?out] top by auto
  qed
qed

text \<open>A candidate preferred to all others is the one that is kept.\<close>

lemma best_of_unique:
  assumes "q \<in> set (out # xs)" and "\<And>x. x \<in> set (out # xs) \<Longrightarrow> x \<noteq> q \<Longrightarrow> cmp x q < 0"
  shows "best_of cmp out xs = q"
  using best_of_top [OF assms(1)] assms(2) [OF best_of_in] by blast

end

section \<open>A sequence of operations\<close>

primrec run_ops :: "('op \<Rightarrow> 's \<Rightarrow> 's run) \<Rightarrow> 'op list \<Rightarrow> 's \<Rightarrow> 's run" where
  "run_ops exec [] s = Inr s"
| "run_ops exec (op # ops) s = run_bind (exec op s) (run_ops exec ops)"

lemma run_ops_append: "run_ops exec (ops @ ops') s = run_bind (run_ops exec ops s) (run_ops exec ops')"
proof (induction ops arbitrary: s)
  case (Cons op ops)
  then show ?case by (cases "exec op s") auto
qed simp

text \<open>
  Operations that keep an invariant and run into no fault. \<open>inv n\<close> allows \<open>n\<close> more
  operations, for components with a bounded counter.
\<close>

locale machine =
  fixes exec :: "'op \<Rightarrow> 's \<Rightarrow> 's run"
    and inv :: "nat \<Rightarrow> 's \<Rightarrow> bool"
    and good :: "'op \<Rightarrow> bool"
  assumes step: "inv (Suc n) s \<Longrightarrow> good op \<Longrightarrow> ensures (exec op s) (inv n)"
begin

lemma run: "inv (length ops + n) s \<Longrightarrow> \<forall>op \<in> set ops. good op \<Longrightarrow> ensures (run_ops exec ops s) (inv n)"
proof (induction ops arbitrary: s)
  case (Cons op ops)
  have "ensures (exec op s) (inv (length ops + n))"
    by (rule step) (use Cons.prems in simp_all)
  then show ?case
    using Cons.IH Cons.prems(2) by (auto elim: ensures_mono)
qed simp

end

text \<open>
  Operations whose use is restricted: \<open>follows\<close> says that every operation of a sequence is
  legal in the state it meets; what happens after a fault does not matter.
\<close>

primrec follows :: "('s \<Rightarrow> 'op \<Rightarrow> bool) \<Rightarrow> ('op \<Rightarrow> 's \<Rightarrow> 's run) \<Rightarrow> 'op list \<Rightarrow> 's \<Rightarrow> bool" where
  "follows legal exec [] s \<longleftrightarrow> True"
| "follows legal exec (op # ops) s \<longleftrightarrow>
     legal s op \<and> (case exec op s of Inl f \<Rightarrow> True | Inr s' \<Rightarrow> follows legal exec ops s')"

locale discipline =
  fixes exec :: "'op \<Rightarrow> 's \<Rightarrow> 's run"
    and inv :: "'s \<Rightarrow> bool"
    and legal :: "'s \<Rightarrow> 'op \<Rightarrow> bool"
  assumes step: "inv s \<Longrightarrow> legal s op \<Longrightarrow> ensures (exec op s) inv"
begin

lemma run: "inv s \<Longrightarrow> follows legal exec ops s \<Longrightarrow> ensures (run_ops exec ops s) inv"
proof (induction ops arbitrary: s)
  case (Cons op ops)
  obtain s' where "exec op s = Inr s'" and "inv s'"
    using step [of s op] Cons.prems by (auto simp: ensures_def)
  then show ?case using Cons.IH Cons.prems(2) by simp
qed simp

end

text \<open>A field of the state to which each operation may give a value: the last value stays.\<close>

locale setting =
  fixes exec :: "'op \<Rightarrow> 's \<Rightarrow> 's run"
    and field :: "'s \<Rightarrow> 'v"
    and gives :: "'op \<Rightarrow> 'v option"
  assumes step: "exec op s = Inr s' \<Longrightarrow> field s' = (case gives op of None \<Rightarrow> field s | Some v \<Rightarrow> v)"
begin

lemma run_last:
  "run_ops exec ops s = Inr s' \<Longrightarrow> field s' = last (field s # map the (filter (\<lambda>x. x \<noteq> None) (map gives ops)))"
proof (induction ops arbitrary: s)
  case (Cons op ops)
  then obtain s1 where s1: "exec op s = Inr s1" "run_ops exec ops s1 = Inr s'"
    by (auto elim!: run_bind_InrE)
  show ?case
    using Cons.IH [OF s1(2)] step [OF s1(1)] by (auto split: option.splits)
qed simp

end

end
