(* ===== verification/Alpn_Protocols.thy ===== *)
theory Alpn_Protocols
  imports C_Model
begin

text \<open>
  \<open>initProtocols\<close> of \<^verbatim>\<open>native/src/sslcontext.c\<close>: the Java array of protocol names is
  written in wire format into a buffer that starts with 128 bytes and is doubled, once per
  name, when the next name does not fit.

  A Java string is \<open>None\<close> when \<open>GetStringUTFChars\<close> returns NULL, else the bytes of
  its modified UTF-8 form. The allocator is a parameter: whether \<open>malloc\<close> succeeds and,
  for each size, whether \<open>realloc\<close> succeeds. Sizes are natural numbers: a \<open>size_t\<close>
  would wrap only for more than \<open>2 ^ 56\<close> names.
\<close>

section \<open>The buffer under construction\<close>

text \<open>
  The C variables \<open>p_data_size\<close>, \<open>p_data_len\<close> and \<open>p_data\<close>; the last as an offset
  from the start of the allocated block.
\<close>

record pbuf =
  pb_block :: block
  pb_size :: nat
  pb_len :: nat
  pb_pos :: nat

definition MAX_ALPN_PROTO_SIZE :: nat where
  "MAX_ALPN_PROTO_SIZE = 65535"

text \<open>
  \<open>if (p_data_len > p_data_size) { ... }\<close>: the start of the block is recovered from the
  write position (freeing anything else would be a fault), the size doubles, and the
  position is set again in the new block. The result is \<open>None\<close> when \<open>realloc\<close> fails.
  \<open>len'\<close> is the length with the new name counted, \<open>n\<close> the length of the name.
\<close>

definition grow_pbuf :: "(nat \<Rightarrow> bool) \<Rightarrow> nat \<Rightarrow> nat \<Rightarrow> pbuf \<Rightarrow> pbuf option run" where
  "grow_pbuf realloc_ok len' n b =
     (if len' > pb_size b then
        (if pb_pos b \<noteq> len' - (1 + n) then Inl Bad_Free
         else if realloc_ok (2 * pb_size b) then
           Inr (Some (b\<lparr>pb_block := realloc_block (pb_block b) (2 * pb_size b),
                        pb_size := 2 * pb_size b,
                        pb_pos := len' - (1 + n)\<rparr>))
         else Inr None)
      else Inr (Some b))"

text \<open>
  \<open>*p_data = proto_chars_len; ++p_data; memcpy(p_data, proto_chars, proto_chars_len);\<close>
  the length is truncated to an \<open>unsigned char\<close>.
\<close>

definition write_proto :: "byte list \<Rightarrow> nat \<Rightarrow> pbuf \<Rightarrow> pbuf run" where
  "write_proto s n b =
     run_bind (wrn_cell (pb_block b) (pb_pos b) [word_of_nat n]) (\<lambda>blk1.
     run_bind (wrn_cell blk1 (Suc (pb_pos b)) (take n s)) (\<lambda>blk2.
     Inr (b\<lparr>pb_block := blk2, pb_pos := Suc (pb_pos b) + n\<rparr>)))"

definition append_proto :: "(nat \<Rightarrow> bool) \<Rightarrow> byte list \<Rightarrow> nat \<Rightarrow> pbuf \<Rightarrow> pbuf option run" where
  "append_proto realloc_ok s n b =
     (let len' = pb_len b + (1 + n) in
      run_bind (grow_pbuf realloc_ok len' n (b\<lparr>pb_len := len'\<rparr>)) (\<lambda>r.
      case r of
        None \<Rightarrow> Inr None
      | Some b1 \<Rightarrow> run_bind (write_proto s n b1) (\<lambda>b2. Inr (Some b2))))"

text \<open>The loop over the array; \<open>Inr None\<close> is the \<open>break\<close> after a failed \<open>realloc\<close>.\<close>

fun init_protocols_loop ::
  "(nat \<Rightarrow> bool) \<Rightarrow> byte list option list \<Rightarrow> pbuf \<Rightarrow> pbuf option run" where
  "init_protocols_loop realloc_ok [] b = Inr (Some b)"
| "init_protocols_loop realloc_ok (None # ss) b = Inl Null_Deref"
| "init_protocols_loop realloc_ok (Some s # ss) b =
     (if 0 < strlen s \<and> strlen s \<le> MAX_ALPN_PROTO_SIZE then
        run_bind (append_proto realloc_ok (c_str s) (strlen s) b) (\<lambda>r.
        case r of
          None \<Rightarrow> Inr None
        | Some b1 \<Rightarrow> init_protocols_loop realloc_ok ss b1)
      else init_protocols_loop realloc_ok ss b)"

text \<open>What the function returns and leaves in \<open>*proto_data\<close> and \<open>*proto_len\<close>.\<close>

record proto_slot =
  slot_data :: "block option"
  slot_len :: nat

definition initProtocols ::
  "bool \<Rightarrow> (nat \<Rightarrow> bool) \<Rightarrow> byte list option list option \<Rightarrow> proto_slot \<Rightarrow> (int \<times> proto_slot) run"
  where
  "initProtocols malloc_ok realloc_ok protos slot =
     (case protos of
        None \<Rightarrow> Inr (-1, slot)
      | Some ss \<Rightarrow>
          (if length ss = 0 then Inr (-1, slot)
           else if \<not> malloc_ok then Inr (-1, slot)
           else run_bind (init_protocols_loop realloc_ok ss
                            \<lparr>pb_block = malloc_block 128, pb_size = 128, pb_len = 0, pb_pos = 0\<rparr>)
                (\<lambda>r. case r of
                   None \<Rightarrow> Inr (-1, slot\<lparr>slot_len := 0\<rparr>)
                 | Some b \<Rightarrow>
                     (if pb_pos b \<noteq> pb_len b then Inl Bad_Free
                      else Inr (0, slot\<lparr>slot_data := Some (pb_block b), slot_len := pb_len b\<rparr>)))))"

section \<open>When the buffer is large enough\<close>

text \<open>
  What the loop keeps: the block starts with the wire form of the names taken so far, the
  rest of it is unwritten, and the three counters agree with it.
\<close>

definition pbuf_holds :: "byte list list \<Rightarrow> pbuf \<Rightarrow> bool" where
  "pbuf_holds ps b \<longleftrightarrow>
     pb_block b = map Some (wire ps) @ replicate (pb_size b - length (wire ps)) None
     \<and> pb_len b = length (wire ps) \<and> pb_pos b = length (wire ps)
     \<and> length (wire ps) \<le> pb_size b \<and> 128 \<le> pb_size b"

lemma pbuf_holds_init:
  "pbuf_holds [] \<lparr>pb_block = malloc_block 128, pb_size = 128, pb_len = 0, pb_pos = 0\<rparr>"
  by (simp add: pbuf_holds_def malloc_block_def)

lemma pbuf_holds_block_length: "pbuf_holds ps b \<Longrightarrow> length (pb_block b) = pb_size b"
  by (simp add: pbuf_holds_def)

text \<open>Writing one name into a block with room for it.\<close>

lemma write_proto_fits:
  assumes "pb_block b = map Some ws @ replicate k None" and "pb_pos b = length ws"
    and "Suc (length s) \<le> k"
  shows "write_proto s (length s) b =
    Inr (b\<lparr>pb_block := map Some (ws @ wire_name s) @ replicate (k - Suc (length s)) None,
           pb_pos := length ws + Suc (length s)\<rparr>)"
proof -
  have 1: "wrn_cell (pb_block b) (pb_pos b) [word_of_nat (length s)]
      = Inr (map Some (ws @ [word_of_nat (length s)]) @ replicate (k - 1) None)"
    using assms wrn_cell_append [of "[word_of_nat (length s)]" k "map Some ws"] by simp
  have 2: "wrn_cell (map Some (ws @ [word_of_nat (length s)]) @ replicate (k - 1) None)
        (Suc (pb_pos b)) s
      = Inr (map Some (ws @ wire_name s) @ replicate (k - Suc (length s)) None)"
    using assms wrn_cell_append [of s "k - 1" "map Some (ws @ [word_of_nat (length s)])"]
    by (simp add: wire_name_def)
  show ?thesis
    using 1 2 by (simp add: write_proto_def assms(2))
qed

text \<open>
  A name of at most 127 bytes takes at most 128, so one doubling is always enough.
\<close>

lemma append_proto_holds:
  assumes "pbuf_holds ps b" and "length s \<le> 127"
    and "realloc_ok (2 * pb_size b) \<or> length (wire (ps @ [s])) \<le> pb_size b"
  shows "\<exists>b'. append_proto realloc_ok s (length s) b = Inr (Some b') \<and> pbuf_holds (ps @ [s]) b'"
proof -
  let ?n = "length s" and ?w = "length (wire ps)"
  let ?len = "pb_len b + (1 + ?n)"
  have b: "pb_block b = map Some (wire ps) @ replicate (pb_size b - ?w) None"
    "pb_len b = ?w" "pb_pos b = ?w" "?w \<le> pb_size b" "128 \<le> pb_size b"
    using assms(1) by (simp_all add: pbuf_holds_def)
  define size where "size = (if ?len > pb_size b then 2 * pb_size b else pb_size b)"
  define b1 where "b1 = b\<lparr>pb_len := ?len, pb_size := size,
     pb_block := map Some (wire ps) @ replicate (size - ?w) None\<rparr>"
  have room: "Suc ?n \<le> size - ?w" "128 \<le> size" "pb_size b \<le> size"
    using b assms(2) by (auto simp: size_def)
  have grow: "grow_pbuf realloc_ok ?len ?n (b\<lparr>pb_len := ?len\<rparr>) = Inr (Some b1)"
    using b assms(3) realloc_block_grow [of "map Some (wire ps)" "pb_size b - ?w" size]
    by (auto simp: grow_pbuf_def b1_def size_def)
  have w: "write_proto s ?n b1 =
      Inr (b1\<lparr>pb_block := map Some (wire ps @ wire_name s) @ replicate (size - ?w - Suc ?n) None,
              pb_pos := ?w + Suc ?n\<rparr>)"
    using room b by (intro write_proto_fits) (simp_all add: b1_def)
  have "append_proto realloc_ok s ?n b = Inr (Some (b1\<lparr>
        pb_block := map Some (wire ps @ wire_name s) @ replicate (size - ?w - Suc ?n) None,
        pb_pos := ?w + Suc ?n\<rparr>))"
    unfolding append_proto_def Let_def by (simp only: grow run_bind.simps option.case w)
  moreover have "pbuf_holds (ps @ [s]) (b1\<lparr>
        pb_block := map Some (wire ps @ wire_name s) @ replicate (size - ?w - Suc ?n) None,
        pb_pos := ?w + Suc ?n\<rparr>)"
    using room b by (simp add: pbuf_holds_def b1_def)
  ultimately show ?thesis by blast
qed

lemma append_proto_realloc_fails:
  assumes "pbuf_holds ps b" and "pb_size b < length (wire (ps @ [s]))"
    and "\<not> realloc_ok (2 * pb_size b)"
  shows "append_proto realloc_ok s (length s) b = Inr None"
  using assms by (simp add: append_proto_def grow_pbuf_def pbuf_holds_def Let_def)

text \<open>The names the loop takes: the empty ones are skipped.\<close>

definition nonempty_names :: "byte list list \<Rightarrow> byte list list" where
  "nonempty_names ss = filter (\<lambda>s. s \<noteq> []) ss"

lemma nonempty_names_simps [simp, wire_simps]:
  "nonempty_names [] = []"
  "nonempty_names (s # ss) = (if s = [] then nonempty_names ss else s # nonempty_names ss)"
  by (simp_all add: nonempty_names_def)

definition short_names :: "byte list list \<Rightarrow> bool" where
  "short_names ss \<longleftrightarrow> (\<forall>s \<in> set ss. length s \<le> 127 \<and> 0 \<notin> set s)"

lemma init_protocols_loop_holds:
  assumes "pbuf_holds ps b" and "short_names ss"
  shows "\<exists>r. init_protocols_loop realloc_ok (map Some ss) b = Inr r \<and>
    (case r of None \<Rightarrow> (\<exists>n. \<not> realloc_ok n)
     | Some b' \<Rightarrow> pbuf_holds (ps @ nonempty_names ss) b')"
  using assms
proof (induction ss arbitrary: ps b)
  case Nil
  then show ?case by simp
next
  case (Cons s ss)
  have s: "c_str s = s" "strlen s = length s" "length s \<le> 127" and ss: "short_names ss"
    using Cons.prems(2) by (simp_all add: short_names_def c_str_id strlen_def)
  show ?case
  proof (cases "s = [] \<or> pb_size b < length (wire (ps @ [s])) \<and> \<not> realloc_ok (2 * pb_size b)")
    case True
    then show ?thesis
      using Cons.IH [OF Cons.prems(1) ss] append_proto_realloc_fails [OF Cons.prems(1), of s] s
      by (auto simp: MAX_ALPN_PROTO_SIZE_def split: option.splits)
  next
    case False
    then obtain b' where "append_proto realloc_ok s (length s) b = Inr (Some b')"
      and "pbuf_holds (ps @ [s]) b'"
      using append_proto_holds [OF Cons.prems(1) s(3), of realloc_ok] by (meson not_le)
    then show ?thesis
      using Cons.IH [of "ps @ [s]" b'] ss s False
      by (auto simp: MAX_ALPN_PROTO_SIZE_def split: option.splits)
  qed
qed

text \<open>The whole conversion, for names that fit after one doubling.\<close>

lemma initProtocols_short:
  assumes "ss \<noteq> []" and "short_names ss"
  shows "\<exists>k. initProtocols True (\<lambda>_. True) (Some (map Some ss)) slot =
    Inr (0, slot\<lparr>slot_data := Some (map Some (wire (nonempty_names ss)) @ replicate k None),
                slot_len := length (wire (nonempty_names ss))\<rparr>)"
  using init_protocols_loop_holds [OF pbuf_holds_init assms(2), of "\<lambda>_. True"] assms(1)
  by (auto simp: initProtocols_def pbuf_holds_def split: option.splits)

section \<open>Properties\<close>

text \<open>
  C10: when memory does not run out, \<open>initProtocols\<close> on a non-empty array of names of at most
  127 bytes returns 0 and leaves a buffer whose first \<open>*proto_len\<close> bytes are the wire
  format of the non-empty names, in order; the bytes after them are unwritten.
\<close>

theorem initProtocols_wire:
  assumes "ss \<noteq> []" and "short_names ss"
  shows "\<exists>k. initProtocols True (\<lambda>_. True) (Some (map Some ss)) slot =
    Inr (0, slot\<lparr>slot_data := Some (map Some (wire (nonempty_names ss)) @ replicate k None),
                slot_len := length (wire (nonempty_names ss))\<rparr>)"
  by (rule initProtocols_short [OF assms])

theorem initProtocols_wire_witness:
  "\<exists>k. initProtocols True (\<lambda>_. True) (Some (map Some [[104, 50], []])) \<lparr>slot_data = None, slot_len = 0\<rparr>
     = Inr (0, \<lparr>slot_data = Some (map Some [2, 104, 50] @ replicate k None), slot_len = 3\<rparr>)"
  using initProtocols_wire [of "[[104, 50], []]" "\<lparr>slot_data = None, slot_len = 0\<rparr>"]
  by (simp add: short_names_def wire_name_def numeral_3_eq_3)

text \<open>
  Whatever the allocator does, with names of at most 127 bytes \<open>initProtocols\<close> writes
  inside its buffer only, and when it fails the previously configured data stays.
\<close>

theorem initProtocols_safe:
  assumes "short_names ss"
  shows "\<exists>rv slot'. initProtocols malloc_ok realloc_ok (Some (map Some ss)) slot = Inr (rv, slot')
    \<and> (rv = 0 \<or> rv = -1 \<and> slot_data slot' = slot_data slot)"
  using init_protocols_loop_holds [OF pbuf_holds_init assms, of realloc_ok]
  by (auto simp: initProtocols_def pbuf_holds_def split: option.splits)

theorem initProtocols_safe_witness:
  "\<exists>rv slot'. initProtocols True (\<lambda>_. False) (Some (map Some [[104, 50]])) \<lparr>slot_data = None, slot_len = 0\<rparr>
     = Inr (rv, slot') \<and> (rv = 0 \<or> rv = -1 \<and> slot_data slot' = None)"
  using initProtocols_safe [of "[[104, 50]]" True "\<lambda>_. False" "\<lparr>slot_data = None, slot_len = 0\<rparr>"]
  by (simp add: short_names_def)

text \<open>
  C38: the buffer is doubled only once per name, so a first name of more than 255 bytes, which
  the length check admits up to 65535, is written past the end of the heap block.
\<close>

theorem initProtocols_overflow:
  assumes "255 < length s" and "length s \<le> 65535" and "0 \<notin> set s"
  shows "initProtocols True (\<lambda>_. True) (Some (Some s # ss)) slot = Inl Out_Of_Bounds"
proof -
  have "wrn_cell (malloc_block 128) 0 [w] = Inr (map Some [w] @ replicate 127 None)" for w
    by (simp add: wrn_cell_def malloc_block_def)
  have "realloc_block (malloc_block 128) 256 = replicate 256 None"
    by (simp add: realloc_block_def malloc_block_def replicate_add [symmetric])
  then have "append_proto (\<lambda>_. True) s (length s)
      \<lparr>pb_block = malloc_block 128, pb_size = 128, pb_len = 0, pb_pos = 0\<rparr> = Inl Out_Of_Bounds"
    using assms by (simp add: append_proto_def grow_pbuf_def write_proto_def Let_def wrn_cell_def)
  then show ?thesis
    using assms by (auto simp: initProtocols_def MAX_ALPN_PROTO_SIZE_def c_str_id strlen_def)
qed

theorem initProtocols_overflow_witness:
  "initProtocols True (\<lambda>_. True) (Some [Some (replicate 256 97)]) \<lparr>slot_data = None, slot_len = 0\<rparr>
     = Inl Out_Of_Bounds"
  using initProtocols_overflow [of "replicate 256 97" "[]"] by simp

end
