(* ===== verification/Alpn_Select.thy ===== *)
theory Alpn_Select
  imports Alpn_Protocols
begin

text \<open>
  \<open>select_next_proto\<close> and \<open>SSL_callback_alpn_select_proto\<close> of
  \<^verbatim>\<open>native/src/sslutils.c\<close>: the ALPN callback that walks the supported protocols
  (the buffer \<open>initProtocols\<close> built) and, for each, the peer's list.

  Pointers are offsets into the two buffers; \<open>*out\<close> is an offset into the peer's list.
  \<open>unsigned int\<close> counters are natural numbers: they stay below the buffer lengths plus 255.
\<close>

section \<open>The two loops\<close>

datatype tlsext_err = SSL_TLSEXT_ERR_OK | SSL_TLSEXT_ERR_ALERT_FATAL | SSL_TLSEXT_ERR_NOACK

definition SSL_SELECTOR_FAILURE_CHOOSE_MY_LAST_PROTOCOL :: int where
  "SSL_SELECTOR_FAILURE_CHOOSE_MY_LAST_PROTOCOL = 1"

text \<open>
  The condition of the inner loop's \<open>if\<close>: \<open>memcmp\<close> reads the supported name at \<open>s\<close>
  and the peer's name at \<open>proto\<close>, and only when the two lengths agree and the peer's
  name ends inside its list.
\<close>

definition same_proto ::
  "block \<Rightarrow> nat \<Rightarrow> byte \<Rightarrow> byte list \<Rightarrow> nat \<Rightarrow> nat \<Rightarrow> byte \<Rightarrow> bool run" where
  "same_proto supported s target_len inp e proto proto_len =
     (if proto + unat proto_len \<le> e \<and> target_len = proto_len then
        run_bind (rdn_cell supported s (unat proto_len)) (\<lambda>a.
        run_bind (rdn inp proto (unat proto_len)) (\<lambda>b. Inr (a = b)))
      else Inr False)"

text \<open>
  \<open>while (p < end)\<close>: \<open>Inl (proto, proto_len)\<close> is a match, \<open>Inr (p, proto_len)\<close> the two
  variables when the loop ends.
\<close>

function scan_peer ::
  "block \<Rightarrow> nat \<Rightarrow> byte \<Rightarrow> byte list \<Rightarrow> nat \<Rightarrow> nat \<Rightarrow> byte \<Rightarrow> ((nat \<times> byte) + (nat \<times> byte)) run"
  where
  "scan_peer supported s target_len inp e p proto_len =
     (if p < e then
        run_bind (rd inp p) (\<lambda>proto_len'.
        run_bind (same_proto supported s target_len inp e (Suc p) proto_len') (\<lambda>same.
        if same then Inr (Inl (Suc p, proto_len'))
        else scan_peer supported s target_len inp e (Suc p + unat proto_len') proto_len'))
      else Inr (Inr (p, proto_len)))"
  by pat_completeness auto
termination
  by (relation "measure (\<lambda>(_, _, _, _, e, p, _). e - p)") auto

declare scan_peer.simps [simp del]

text \<open>
  \<open>while (i < supported_protos_len)\<close>. The variable \<open>p\<close> has no value before the first
  round. \<open>i\<close> grows by the length of the name only, \<open>supported_protos\<close> (here \<open>s\<close>)
  also by the length byte.
\<close>

function select_loop ::
  "block \<Rightarrow> nat \<Rightarrow> byte list \<Rightarrow> nat \<Rightarrow> nat \<Rightarrow> nat \<Rightarrow> nat option \<Rightarrow> byte
     \<Rightarrow> ((nat \<times> byte) + (nat option \<times> byte)) run"
  where
  "select_loop supported supported_len inp inlen s i p proto_len =
     (if i < supported_len then
        run_bind (rd_cell supported s) (\<lambda>target_len.
        run_bind (scan_peer supported (Suc s) target_len inp inlen 0 proto_len) (\<lambda>r.
        case r of
          Inl found \<Rightarrow> Inr (Inl found)
        | Inr (p', proto_len') \<Rightarrow>
            select_loop supported supported_len inp inlen
              (Suc s + unat target_len) (i + unat target_len) (Some p') proto_len'))
      else Inr (Inr (p, proto_len)))"
  by pat_completeness auto
termination
  by (relation "measure (\<lambda>(supported, _, _, _, s, _, _, _). length supported - s)")
    (auto simp: rd_cell_def split: if_splits)

declare select_loop.simps [simp del]

definition select_next_proto ::
  "byte list \<Rightarrow> nat \<Rightarrow> block \<Rightarrow> nat \<Rightarrow> int \<Rightarrow> (tlsext_err \<times> (nat \<times> byte) option) run" where
  "select_next_proto inp inlen supported supported_len failure_behavior =
     run_bind (select_loop supported supported_len inp inlen 0 0 None 0) (\<lambda>r.
     case r of
       Inl found \<Rightarrow> Inr (SSL_TLSEXT_ERR_OK, Some found)
     | Inr (p, proto_len) \<Rightarrow>
         (if supported_len > 0 \<and> inlen > 0
             \<and> failure_behavior = SSL_SELECTOR_FAILURE_CHOOSE_MY_LAST_PROTOCOL then
            (case p of
               None \<Rightarrow> Inl Uninitialised
             | Some p' \<Rightarrow> Inr (SSL_TLSEXT_ERR_OK, Some (p' - unat proto_len, proto_len)))
          else Inr (SSL_TLSEXT_ERR_NOACK, None)))"

text \<open>The callback reads the supported list and the failure behaviour from the context.\<close>

definition SSL_callback_alpn_select_proto ::
  "proto_slot \<Rightarrow> int \<Rightarrow> byte list \<Rightarrow> nat \<Rightarrow> (tlsext_err \<times> (nat \<times> byte) option) run" where
  "SSL_callback_alpn_select_proto slot failure_behavior inp inlen =
     select_next_proto inp inlen (case slot_data slot of None \<Rightarrow> [] | Some b \<Rightarrow> b)
       (slot_len slot) failure_behavior"

section \<open>One pass over the peer's list\<close>

definition valid_names :: "byte list list \<Rightarrow> bool" where
  "valid_names ps \<longleftrightarrow> (\<forall>p \<in> set ps. valid_name p)"

lemma valid_names_simps [simp]:
  "valid_names []" "valid_names (p # ps) \<longleftrightarrow> valid_name p \<and> valid_names ps"
  "valid_names (ps @ qs) \<longleftrightarrow> valid_names ps \<and> valid_names qs"
  by (auto simp: valid_names_def)

lemma word_of_nat_length_eq_iff:
  "m \<le> 255 \<Longrightarrow> n \<le> 255 \<Longrightarrow> (word_of_nat m :: byte) = word_of_nat n \<longleftrightarrow> m = n"
  by (metis unat_length_byte)

text \<open>Where the names of a list end, a pass over it continues at the next name.\<close>

lemma rd_wire: "rd (wire ps @ wire_name c @ zs) (length (wire ps)) = Inr (word_of_nat (length c))"
  by (simp add: wire_name_def run_simps)

lemma rdn_wire:
  "rdn (wire ps @ wire_name c @ zs) (Suc (length (wire ps))) (length c) = Inr c"
  using rdn_append(1) [of c "length c" "wire ps @ [word_of_nat (length c)]" zs]
  by (simp add: wire_name_def)

text \<open>A pass finds the name \<open>q\<close> exactly when the peer lists it.\<close>

lemma scan_peer_wire:
  assumes "rdn_cell supported s (length q) = Inr q" and "length q \<le> 255" and "valid_names cs"
    and "inp = wire ds @ wire cs" and "e = length inp"
  shows "if q \<in> set cs
    then \<exists>off. scan_peer supported s (word_of_nat (length q)) inp e (length (wire ds)) pl
           = Inr (Inl (off, word_of_nat (length q))) \<and> rdn inp off (length q) = Inr q
    else scan_peer supported s (word_of_nat (length q)) inp e (length (wire ds)) pl
           = Inr (Inr (e, if cs = [] then pl else word_of_nat (length (last cs))))"
  using assms(3,4)
proof (induction cs arbitrary: ds pl)
  case Nil
  then show ?case using assms(5) by (simp add: scan_peer.simps)
next
  case (Cons c cs)
  have c: "length c \<le> 255" and cs: "valid_names cs"
    using Cons.prems by (simp_all add: valid_name_def)
  have inp: "inp = wire ds @ wire_name c @ wire cs" "inp = wire (ds @ [c]) @ wire cs"
    using Cons.prems by simp_all
  have lt: "length (wire ds) < e" "Suc (length (wire ds)) + length c \<le> e"
    using inp assms(5) by simp_all
  have same: "same_proto supported s (word_of_nat (length q)) inp e (Suc (length (wire ds)))
      (word_of_nat (length c)) = Inr (c = q)"
    using lt(2) assms(1,2) c rdn_wire [of ds c "wire cs", folded inp(1)]
    by (auto simp: same_proto_def unat_length_byte word_of_nat_length_eq_iff)
  have next_p: "Suc (length (wire ds)) + unat (word_of_nat (length c) :: byte) = length (wire (ds @ [c]))"
    using c by (simp add: unat_length_byte)
  have step: "scan_peer supported s (word_of_nat (length q)) inp e (length (wire ds)) pl =
      (if c = q then Inr (Inl (Suc (length (wire ds)), word_of_nat (length c)))
       else scan_peer supported s (word_of_nat (length q)) inp e (length (wire (ds @ [c])))
              (word_of_nat (length c)))"
    using rd_wire [of ds c "wire cs", folded inp(1)] same lt(1)
    by (subst scan_peer.simps) (simp only: next_p run_bind.simps if_True)
  show ?case
  proof (cases "c = q")
    case True
    then show ?thesis using step rdn_wire [of ds c "wire cs", folded inp(1)] by auto
  next
    case False
    then show ?thesis
      using step Cons.IH [OF cs inp(2), of "word_of_nat (length c)"] by (auto split: if_splits)
  qed
qed

lemmas scan_peer_start = scan_peer_wire [where ds = "[]", simplified]

text \<open>
  Whatever the supported buffer holds, a pass that ends without a fault has either found a
  name of the peer's list or read that list to its end.
\<close>

lemma scan_peer_range:
  assumes "valid_names cs" and "inp = wire ds @ wire cs" and "e = length inp"
    and "scan_peer supported s t inp e (length (wire ds)) pl = Inr r"
  shows "case r of
      Inl (off, len) \<Rightarrow> \<exists>c \<in> set cs. rdn inp off (unat len) = Inr c
    | Inr (p, len) \<Rightarrow> p = e \<and> len = (if cs = [] then pl else word_of_nat (length (last cs)))"
  using assms(1,2,4)
proof (induction cs arbitrary: ds pl)
  case Nil
  then show ?case using assms(3) by (auto simp: scan_peer.simps)
next
  case (Cons c cs)
  have c: "length c \<le> 255" and cs: "valid_names cs"
    using Cons.prems(1) by (simp_all add: valid_name_def)
  have inp: "inp = wire ds @ wire_name c @ wire cs" "inp = wire (ds @ [c]) @ wire cs"
    using Cons.prems(2) by simp_all
  have next_p: "Suc (length (wire ds)) + unat (word_of_nat (length c) :: byte) = length (wire (ds @ [c]))"
    using c by (simp add: unat_length_byte)
  have lt: "length (wire ds) < e"
    using inp(1) assms(3) by simp
  have step: "scan_peer supported s t inp e (length (wire ds)) pl =
      run_bind (same_proto supported s t inp e (Suc (length (wire ds))) (word_of_nat (length c)))
        (\<lambda>same. if same then Inr (Inl (Suc (length (wire ds)), word_of_nat (length c)))
          else scan_peer supported s t inp e (length (wire (ds @ [c]))) (word_of_nat (length c)))"
    using rd_wire [of ds c "wire cs", folded inp(1)] lt
    by (subst scan_peer.simps) (simp only: next_p run_bind.simps if_True)
  obtain same where same: "(if same then Inr (Inl (Suc (length (wire ds)), word_of_nat (length c)))
      else scan_peer supported s t inp e (length (wire (ds @ [c]))) (word_of_nat (length c))) = Inr r"
    using Cons.prems(3) [unfolded step run_bind_Inr_iff] by blast
  show ?case
  proof (cases same)
    case True
    then show ?thesis
      using same rdn_wire [of ds c "wire cs", folded inp(1)] c by (auto simp: unat_length_byte)
  next
    case False
    then show ?thesis
      using same Cons.IH [OF cs inp(2), of "word_of_nat (length c)"] by (auto split: sum.splits)
  qed
qed

lemmas scan_peer_range_start = scan_peer_range [where ds = "[]", simplified, OF _ refl refl]

section \<open>The walk over the supported list\<close>

lemma length_wire_gt: "ps \<noteq> [] \<Longrightarrow> sum_list (map length ps) < length (wire ps)"
  by (cases ps) (simp_all add: length_wire)

text \<open>One round, at the name \<open>q\<close> of the supported list.\<close>

lemma select_loop_step:
  assumes "supported = map Some (wire ds @ wire_name q @ zs) @ rest" and "length q \<le> 255"
    and "i < supported_len" and "valid_names cs"
  shows "if q \<in> set cs
    then \<exists>off. select_loop supported supported_len (wire cs) (length (wire cs)) (length (wire ds)) i p pl
           = Inr (Inl (off, word_of_nat (length q))) \<and> rdn (wire cs) off (length q) = Inr q
    else select_loop supported supported_len (wire cs) (length (wire cs)) (length (wire ds)) i p pl
      = select_loop supported supported_len (wire cs) (length (wire cs))
          (length (wire (ds @ [q]))) (i + length q) (Some (length (wire cs)))
          (if cs = [] then pl else word_of_nat (length (last cs)))"
proof -
  have 1: "rd_cell supported (length (wire ds)) = Inr (word_of_nat (length q))"
    using rd_cell_append(1) [of "map Some (wire ds)"] assms(1) by (simp add: wire_name_def)
  have 2: "rdn_cell supported (Suc (length (wire ds))) (length q) = Inr q"
    using rdn_cell_append [of q "length q" "map Some (wire ds @ [word_of_nat (length q)])"] assms(1)
    by (simp add: wire_name_def)
  show ?thesis
    using scan_peer_start [OF 2 assms(2,4) refl refl, of pl] assms(2,3)
    by (auto simp: select_loop.simps [of _ _ _ _ _ i] 1 unat_length_byte split: if_splits)
qed

lemma select_loop_match:
  assumes "supported = map Some (wire ds @ wire ps) @ rest"
    and "valid_names ps" and "valid_names cs"
    and "supported_len = length (wire ds @ wire ps)" and "i = sum_list (map length ds)"
    and "find (\<lambda>q. q \<in> set cs) ps = Some q"
  shows "\<exists>off. select_loop supported supported_len (wire cs) (length (wire cs)) (length (wire ds)) i p pl
           = Inr (Inl (off, word_of_nat (length q))) \<and> rdn (wire cs) off (length q) = Inr q"
  using assms
proof (induction ps arbitrary: ds i p pl)
  case Nil
  then show ?case by simp
next
  case (Cons r ps)
  have r: "length r \<le> 255" and i: "i < supported_len"
    using Cons.prems(2,4,5) by (simp_all add: valid_name_def length_wire)
  have sup: "supported = map Some (wire ds @ wire_name r @ wire ps) @ rest"
    using Cons.prems(1) by simp
  show ?case
  proof (cases "r \<in> set cs")
    case True
    then show ?thesis using select_loop_step [OF sup r i Cons.prems(3), of p pl] Cons.prems(6) by simp
  next
    case False
    have "\<exists>off. select_loop supported supported_len (wire cs) (length (wire cs))
        (length (wire (ds @ [r]))) (i + length r) (Some (length (wire cs)))
        (if cs = [] then pl else word_of_nat (length (last cs)))
        = Inr (Inl (off, word_of_nat (length q))) \<and> rdn (wire cs) off (length q) = Inr q"
      using Cons.prems False by (intro Cons.IH) simp_all
    then show ?thesis
      using select_loop_step [OF sup r i Cons.prems(3), of p pl] False by simp
  qed
qed

text \<open>
  Without a common name the loop arrives behind the last name with \<open>i\<close> still below
  \<open>supported_protos_len\<close>, by the number of names.
\<close>

lemma select_loop_no_match:
  assumes "supported = map Some (wire ds @ wire ps) @ rest"
    and "valid_names ps" and "valid_names cs"
    and "supported_len = length (wire ds @ wire ps)" and "i = sum_list (map length ds)"
    and "set ps \<inter> set cs = {}"
  shows "\<exists>p' pl'. select_loop supported supported_len (wire cs) (length (wire cs)) (length (wire ds)) i p pl
    = select_loop supported supported_len (wire cs) (length (wire cs)) supported_len
        (i + sum_list (map length ps)) p' pl'"
  using assms
proof (induction ps arbitrary: ds i p pl)
  case Nil
  then show ?case by auto
next
  case (Cons r ps)
  have r: "length r \<le> 255" and i: "i < supported_len"
    using Cons.prems(2,4,5) by (simp_all add: valid_name_def length_wire)
  have sup: "supported = map Some (wire ds @ wire_name r @ wire ps) @ rest"
    using Cons.prems(1) by simp
  obtain p' pl' where IH: "select_loop supported supported_len (wire cs) (length (wire cs))
        (length (wire (ds @ [r]))) (i + length r) (Some (length (wire cs)))
        (if cs = [] then pl else word_of_nat (length (last cs)))
      = select_loop supported supported_len (wire cs) (length (wire cs)) supported_len
          ((i + length r) + sum_list (map length ps)) p' pl'"
    using Cons.IH [of "ds @ [r]" "i + length r"] Cons.prems by fastforce
  show ?case
    using select_loop_step [OF sup r i Cons.prems(3), of p pl] IH Cons.prems(6)
    by (auto simp: add.assoc)
qed

lemma select_loop_range:
  assumes "valid_names cs"
    and "select_loop supported supported_len (wire cs) (length (wire cs)) s i p pl = Inr r"
  shows "case r of
      Inl (off, len) \<Rightarrow> \<exists>c \<in> set cs. rdn (wire cs) off (unat len) = Inr c
    | Inr (p', len) \<Rightarrow> (p', len) = (p, pl) \<and> supported_len \<le> i
        \<or> p' = Some (length (wire cs)) \<and> (cs = [] \<or> len = word_of_nat (length (last cs)))"
  using assms(2)
proof (induction supported supported_len "wire cs" "length (wire cs)" s i p pl
    rule: select_loop.induct)
  case (1 supported supported_len s i p pl)
  show ?case
  proof (cases "i < supported_len")
    case False
    then show ?thesis using "1.prems" by (auto simp: select_loop.simps [of _ _ _ _ _ i])
  next
    case True
    then obtain t r' where t: "rd_cell supported s = Inr t"
      and r': "scan_peer supported (Suc s) t (wire cs) (length (wire cs)) 0 pl = Inr r'"
      and rest: "(case r' of Inl found \<Rightarrow> Inr (Inl found)
        | Inr (p', len) \<Rightarrow> select_loop supported supported_len (wire cs) (length (wire cs))
            (Suc (s + unat t)) (i + unat t) (Some p') len) = Inr r"
      using "1.prems" by (auto simp: select_loop.simps [of supported supported_len "wire cs"
            "length (wire cs)" s i p pl] run_bind_Inr_iff)
    show ?thesis
      using "1.hyps" [OF True t r'] scan_peer_range_start [OF assms(1) r'] rest
      by (fastforce split: sum.splits prod.splits if_splits)
  qed
qed

section \<open>Properties\<close>

text \<open>
  C16: on well-formed lists with a name in common, the callback selects the first name of the
  supported list that the peer also lists, and \<open>*out\<close>, \<open>*outlen\<close> are that name inside
  the peer's list; whatever follows the supported list in memory is not read.
\<close>

theorem select_next_proto_common:
  assumes "valid_names ps" and "valid_names cs"
    and "find (\<lambda>q. q \<in> set cs) ps = Some q"
  shows "\<exists>off. select_next_proto (wire cs) (length (wire cs)) (map Some (wire ps) @ rest)
      (length (wire ps)) failure_behavior
    = Inr (SSL_TLSEXT_ERR_OK, Some (off, word_of_nat (length q)))
    \<and> rdn (wire cs) off (length q) = Inr q"
  using select_loop_match [of _ "[]" ps rest cs "length (wire ps)" 0 q None 0] assms
  by (auto simp: select_next_proto_def)

theorem select_next_proto_common_witness:
  "\<exists>off. select_next_proto (wire [[120, 121, 122], [104, 50]]) (length (wire [[120, 121, 122], [104, 50]]))
      (map Some (wire [[104, 50], [97]]) @ []) (length (wire [[104, 50], [97]])) 0
    = Inr (SSL_TLSEXT_ERR_OK, Some (off, word_of_nat (length [104, 50 :: byte])))
    \<and> rdn (wire [[120, 121, 122], [104, 50]]) off (length [104, 50 :: byte]) = Inr [104, 50]"
  by (rule select_next_proto_common) (simp_all add: valid_name_def)

text \<open>
  When the two sides have no name in common, the callback always reads behind the
  supported list: the loop counter leaves out the length bytes. With a buffer as
  \<open>initProtocols\<close> leaves it (unwritten or ending there) this is undefined behaviour, for
  every failure behaviour and every peer list.
\<close>

theorem select_next_proto_overread:
  assumes "valid_names ps" and "ps \<noteq> []" and "valid_names cs" and "set ps \<inter> set cs = {}"
  shows "\<not> safe (select_next_proto (wire cs) (length (wire cs))
    (map Some (wire ps) @ replicate k None) (length (wire ps)) failure_behavior)"
proof -
  let ?sup = "map Some (wire ps) @ replicate k None" and ?n = "length (wire ps)"
  obtain p' pl' where eq: "select_loop ?sup ?n (wire cs) (length (wire cs)) 0 0 None 0
      = select_loop ?sup ?n (wire cs) (length (wire cs)) ?n (sum_list (map length ps)) p' pl'"
    using select_loop_no_match [of ?sup "[]" ps "replicate k None" cs ?n 0 None 0] assms by auto
  moreover have "\<exists>f. rd_cell ?sup ?n = Inl f"
    by (cases k) (simp_all add: rd_cell_def nth_append)
  ultimately show ?thesis
    using length_wire_gt [OF assms(2)]
    by (auto simp: select_next_proto_def select_loop.simps [of _ _ _ _ _ "sum_list (map length ps)"])
qed

theorem select_next_proto_overread_witness:
  "\<not> safe (select_next_proto (wire [[104, 50]]) (length (wire [[104, 50]]))
    (map Some (wire [[97]]) @ replicate 126 None) (length (wire [[97]])) 1)"
  by (rule select_next_proto_overread) (simp_all add: valid_name_def)

text \<open>
  Whatever the buffer of supported names holds, when the callback answers OK on a
  well-formed non-empty peer list, \<open>*out\<close> and \<open>*outlen\<close> denote one whole name of that list.
\<close>

theorem select_next_proto_out_in_peer_list:
  assumes "valid_names cs" and "cs \<noteq> []"
    and "select_next_proto (wire cs) (length (wire cs)) supported supported_len failure_behavior
      = Inr (SSL_TLSEXT_ERR_OK, Some (off, len))"
  shows "\<exists>c \<in> set cs. rdn (wire cs) off (unat len) = Inr c"
proof -
  have last: "rdn (wire cs) (length (wire cs) - length (last cs)) (length (last cs)) = Inr (last cs)"
    using assms(2) by (cases cs rule: rev_cases) (simp_all add: rdn_def wire_name_def)
  have len: "length (last cs) \<le> 255"
    using assms(1,2) by (simp add: valid_names_def valid_name_def)
  obtain r where r: "select_loop supported supported_len (wire cs) (length (wire cs)) 0 0 None 0 = Inr r"
    using assms(3) by (auto simp: select_next_proto_def run_bind_Inr_iff)
  show ?thesis
  proof (cases r)
    case (Inl found)
    then show ?thesis
      using select_loop_range [OF assms(1) r] assms(3) r by (simp add: select_next_proto_def)
  next
    case (Inr nomatch)
    then show ?thesis
      using select_loop_range [OF assms(1) r] assms(2,3) r last len
      by (auto simp: select_next_proto_def unat_length_byte split: if_splits)
  qed
qed

theorem select_next_proto_out_in_peer_list_witness:
  "\<exists>c \<in> set [[104, 50 :: byte]]. rdn (wire [[104, 50]]) 1 (unat (2 :: byte)) = Inr c"
proof (rule select_next_proto_out_in_peer_list)
  show "select_next_proto (wire [[104, 50]]) (length (wire [[104, 50]])) (map Some (wire [[104, 50]])) 3 0
      = Inr (SSL_TLSEXT_ERR_OK, Some (1, 2))"
    by code_simp
qed (simp_all add: valid_name_def)

text \<open>
  With \<open>SSL_SELECTOR_FAILURE_CHOOSE_MY_LAST_PROTOCOL\<close>, a walk that ends without a match
  selects the last name of the peer's list, not the last of the supported list.
\<close>

theorem select_next_proto_fallback_is_peers_last:
  assumes "valid_names cs" and "cs \<noteq> []" and "0 < supported_len"
    and "select_loop supported supported_len (wire cs) (length (wire cs)) 0 0 None 0 = Inr (Inr nomatch)"
  shows "select_next_proto (wire cs) (length (wire cs)) supported supported_len
      SSL_SELECTOR_FAILURE_CHOOSE_MY_LAST_PROTOCOL
    = Inr (SSL_TLSEXT_ERR_OK,
        Some (length (wire cs) - length (last cs), word_of_nat (length (last cs))))"
proof -
  have "length (last cs) \<le> 255"
    using assms(1,2) by (simp add: valid_names_def valid_name_def)
  then show ?thesis
    using select_loop_range [OF assms(1,4)] assms(2-4)
    by (auto simp: select_next_proto_def unat_length_byte split: prod.splits)
qed

theorem select_next_proto_fallback_is_peers_last_witness:
  "select_next_proto (wire [[120, 121], [104, 50]]) (length (wire [[120, 121], [104, 50]]))
      (map Some [1, 97, 7, 0, 0, 0, 0, 0, 0, 0]) 2 SSL_SELECTOR_FAILURE_CHOOSE_MY_LAST_PROTOCOL
    = Inr (SSL_TLSEXT_ERR_OK, Some (length (wire [[120, 121], [104, 50]]) - length (last [[120, 121], [104, 50 :: byte]]),
        word_of_nat (length (last [[120, 121], [104, 50 :: byte]]))))"
proof (rule select_next_proto_fallback_is_peers_last)
  show "select_loop (map Some [1, 97, 7, 0, 0, 0, 0, 0, 0, 0]) 2 (wire [[120, 121], [104, 50]])
      (length (wire [[120, 121], [104, 50]])) 0 0 None 0 = Inr (Inr (Some 6, 2))"
    by code_simp
qed (simp_all add: valid_name_def)

end
