(* ===== verification/Alpn_Server.thy ===== *)
theory Alpn_Server
  imports Interfaces Alpn_Select
begin

text \<open>
  The ALPN callback that \<open>SSLContext.setALPN\<close> installs on a server context, of
  \<^verbatim>\<open>native/src/sslcontext.c\<close>: \<open>ssl_array_index\<close>, \<open>ssl_cmp_alpn_protos\<close> and
  \<open>cb_server_alpn\<close>. Both lists are parsed into arrays of C strings (\<open>apr_pstrndup\<close>
  ends at the first NUL), and the proposal the client ranks highest is selected.
\<close>

section \<open>Comparison of two proposals\<close>

fun array_index_loop :: "byte list list \<Rightarrow> byte list \<Rightarrow> nat \<Rightarrow> int" where
  "array_index_loop [] s i = -1"
| "array_index_loop (p # ps) s i = (if strcmp p s = 0 then int i else array_index_loop ps s (Suc i))"

definition ssl_array_index :: "byte list list \<Rightarrow> byte list \<Rightarrow> int" where
  "ssl_array_index array s = array_index_loop array s 0"

definition ssl_cmp_alpn_protos :: "byte list list \<Rightarrow> byte list \<Rightarrow> byte list \<Rightarrow> int" where
  "ssl_cmp_alpn_protos array proto1 proto2 =
     (let index1 = ssl_array_index array proto1; index2 = ssl_array_index array proto2 in
      if index2 > index1 then (if index1 \<ge> 0 then 1 else -1)
      else if index1 > index2 then (if index2 \<ge> 0 then -1 else 1)
      else strcmp proto1 proto2)"

lemma array_index_loop_cases:
  "s \<notin> set ps \<and> array_index_loop ps s i = -1
   \<or> (\<exists>n < length ps. ps ! n = s \<and> array_index_loop ps s i = int (i + n))"
proof (induction ps s i rule: array_index_loop.induct)
  case (2 p ps s i)
  show ?case
  proof (cases "p = s")
    case False
    with 2 show ?thesis by fastforce
  qed auto
qed simp

lemma ssl_array_index_cases:
  obtains (absent) "s \<notin> set ps" and "ssl_array_index ps s = -1"
  | (present) n where "n < length ps" and "ps ! n = s" and "ssl_array_index ps s = int n"
  using array_index_loop_cases [of s ps 0] by (auto simp: ssl_array_index_def)

lemma ssl_array_index_ge: "-1 \<le> ssl_array_index ps s"
  by (cases rule: ssl_array_index_cases [of s ps]) simp_all

lemma ssl_array_index_nonneg_iff: "0 \<le> ssl_array_index ps s \<longleftrightarrow> s \<in> set ps"
  by (cases rule: ssl_array_index_cases [of s ps]) auto

lemma ssl_array_index_inj:
  "ssl_array_index ps s = ssl_array_index ps t \<Longrightarrow> s \<in> set ps \<Longrightarrow> s = t"
  by (cases rule: ssl_array_index_cases [of s ps]; cases rule: ssl_array_index_cases [of t ps]) auto

text \<open>
  When a later proposal replaces the candidate: it comes earlier in the client's list, or
  neither is on that list and its name is greater.
\<close>

lemma ssl_cmp_less_iff:
  "ssl_cmp_alpn_protos ps a b < 0 \<longleftrightarrow>
     0 \<le> ssl_array_index ps b \<and> (ssl_array_index ps a < 0 \<or> ssl_array_index ps b < ssl_array_index ps a)
     \<or> ssl_array_index ps a = ssl_array_index ps b \<and> strcmp a b < 0"
  using ssl_array_index_ge [of ps a] ssl_array_index_ge [of ps b]
  by (auto simp: ssl_cmp_alpn_protos_def Let_def)

lemma strcmp_split: "strcmp a c < 0 \<Longrightarrow> strcmp a b < 0 \<or> strcmp b c < 0"
  using strcmp_trans [of b a c] strcmp_antisym [of a b] strcmp_eq_0_iff [of a b]
  by (cases "strcmp a b" "0 :: int" rule: linorder_cases) auto

interpretation alpn_pref: preference "ssl_cmp_alpn_protos ps" for ps
proof
  fix a b c
  show "ssl_cmp_alpn_protos ps a b < 0 \<Longrightarrow> \<not> ssl_cmp_alpn_protos ps b a < 0"
    using strcmp_antisym [of a b] by (auto simp: ssl_cmp_less_iff)
  show "ssl_cmp_alpn_protos ps a c < 0 \<Longrightarrow>
      ssl_cmp_alpn_protos ps a b < 0 \<or> ssl_cmp_alpn_protos ps b c < 0"
    using strcmp_split [of a c b] ssl_array_index_ge [of ps a] ssl_array_index_ge [of ps b]
      ssl_array_index_ge [of ps c]
    by (auto simp: ssl_cmp_less_iff)
qed

section \<open>Parsing a protocol list\<close>

text \<open>
  Both \<open>for\<close> loops of \<open>cb_server_alpn\<close>: \<open>None\<close> is the early return when a name extends
  beyond the list.
\<close>

function parse_protos :: "byte list \<Rightarrow> nat \<Rightarrow> nat \<Rightarrow> byte list list \<Rightarrow> byte list list option run" where
  "parse_protos inp inlen i array =
     (if i < inlen then
        run_bind (rd inp i) (\<lambda>plen.
        if unat plen + Suc i > inlen then Inr None
        else run_bind (rdn inp (Suc i) (unat plen)) (\<lambda>s.
          parse_protos inp inlen (Suc i + unat plen) (array @ [c_str s])))
      else Inr (Some array))"
  by pat_completeness auto
termination
  by (relation "measure (\<lambda>(_, inlen, i, _). inlen - i)") auto

declare parse_protos.simps [simp del]

definition alpn_names :: "byte list \<Rightarrow> byte list list option" where
  "alpn_names bs = (case parse_protos bs (length bs) 0 [] of Inl f \<Rightarrow> None | Inr r \<Rightarrow> r)"

definition fits_byte :: "byte list list \<Rightarrow> bool" where
  "fits_byte ns \<longleftrightarrow> (\<forall>n \<in> set ns. length n \<le> 255)"

lemma parse_protos_wire:
  assumes "fits_byte ns" and "inp = wire ds @ wire ns"
  shows "parse_protos inp (length inp) (length (wire ds)) array = Inr (Some (array @ map c_str ns))"
  using assms
proof (induction ns arbitrary: ds array)
  case Nil
  then show ?case by (simp add: parse_protos.simps)
next
  case (Cons n ns)
  have inp: "inp = wire ds @ wire_name n @ wire ns" "inp = wire (ds @ [n]) @ wire ns"
    using Cons.prems(2) by simp_all
  have n: "length n \<le> 255" "fits_byte ns"
    using Cons.prems(1) by (simp_all add: fits_byte_def)
  have "parse_protos inp (length inp) (length (wire ds)) array
      = parse_protos inp (length inp) (length (wire (ds @ [n]))) (array @ [c_str n])"
    using rd_wire [of ds n "wire ns", folded inp(1)] rdn_wire [of ds n "wire ns", folded inp(1)] n
    by (subst parse_protos.simps) (simp add: unat_length_byte, simp add: inp(1))
  also have "\<dots> = Inr (Some (array @ map c_str (n # ns)))"
    using Cons.IH [OF n(2) inp(2)] by simp
  finally show ?case .
qed

text \<open>The parser returns for every input, and accepts wire formats only.\<close>

lemma parse_protos_onto:
  assumes "i \<le> length inp"
  shows "\<exists>r. parse_protos inp (length inp) i array = Inr r \<and>
    (\<forall>ms. r = Some ms \<longrightarrow>
      (\<exists>ns. fits_byte ns \<and> wire ns = drop i inp \<and> ms = array @ map c_str ns))"
  using assms
proof (induction inp "length inp" i array rule: parse_protos.induct)
  case (1 inp i array)
  show ?case
  proof (cases "i < length inp \<and> unat (inp ! i) + Suc i \<le> length inp")
    case False
    then show ?thesis
      using "1.prems"
      by (auto simp: parse_protos.simps [of inp _ i] rd_def fits_byte_def intro: exI [of _ "[]"])
  next
    case True
    let ?n = "unat (inp ! i)" and ?s = "take (unat (inp ! i)) (drop (Suc i) inp)"
    have rd: "rd inp i = Inr (inp ! i)" and rdn: "rdn inp (Suc i) ?n = Inr ?s"
      using True by (simp_all add: rd_def rdn_def)
    have n: "length ?s = ?n" "?n \<le> 255"
      using True by simp_all linarith
    have "drop (Suc i) inp = ?s @ drop (Suc i + ?n) inp"
      by (metis append_take_drop_id drop_drop add.commute)
    then have hd: "drop i inp = wire_name ?s @ drop (Suc i + ?n) inp"
      using True n(1) Cons_nth_drop_Suc [of i inp] by (simp add: wire_name_def)
    obtain r where r: "parse_protos inp (length inp) (Suc i + ?n) (array @ [c_str ?s]) = Inr r"
      "\<And>ms. r = Some ms \<Longrightarrow> \<exists>ns. fits_byte ns \<and> wire ns = drop (Suc i + ?n) inp
         \<and> ms = (array @ [c_str ?s]) @ map c_str ns"
      using "1.hyps" [of "inp ! i" ?s] True rd rdn by auto
    have "parse_protos inp (length inp) i array = Inr r"
      using True rd rdn r(1) by (simp add: parse_protos.simps [of inp _ i])
    moreover have "\<exists>ns. fits_byte ns \<and> wire ns = drop i inp \<and> ms = array @ map c_str ns"
      if r_ms: "r = Some ms" for ms
    proof -
      obtain ns where "fits_byte ns" "wire ns = drop (Suc i + ?n) inp"
        "ms = (array @ [c_str ?s]) @ map c_str ns"
        using r(2) [OF r_ms] by blast
      then show ?thesis
        using n hd by (intro exI [of _ "?s # ns"]) (simp add: fits_byte_def)
    qed
    ultimately show ?thesis by blast
  qed
qed

lemma parse_protos_alpn_names: "parse_protos bs (length bs) 0 [] = Inr (alpn_names bs)"
  using parse_protos_onto [of 0 bs "[]"] by (auto simp: alpn_names_def)

interpretation alpn_format: name_format wire alpn_names fits_byte c_str
proof
  show "alpn_names (wire ns) = Some (map c_str ns)" if "fits_byte ns" for ns
    using parse_protos_wire [OF that, of "wire ns" "[]" "[]"] by (simp add: alpn_names_def)
  show "\<exists>ns. fits_byte ns \<and> wire ns = bs \<and> ms = map c_str ns" if "alpn_names bs = Some ms" for bs ms
    using parse_protos_onto [of 0 bs "[]"] that by (auto simp: alpn_names_def)
qed

section \<open>The callback\<close>

text \<open>
  The result is the status with, on success, the selected name and the byte stored in
  \<open>*outlen\<close>. \<open>alpn\<close> is \<open>None\<close> while \<open>setALPN\<close> has not been called.
\<close>

definition select_best :: "byte list list \<Rightarrow> byte list list \<Rightarrow> byte list" where
  "select_best client_protos proposed_protos =
     best_of (ssl_cmp_alpn_protos client_protos) (hd proposed_protos) (tl proposed_protos)"

definition cb_server_alpn ::
  "byte list option \<Rightarrow> int \<Rightarrow> byte list \<Rightarrow> nat \<Rightarrow> (tlsext_err \<times> (byte list \<times> byte) option) run" where
  "cb_server_alpn alpn alpnlen inp inlen =
     (if inlen = 0 then Inr (SSL_TLSEXT_ERR_ALERT_FATAL, None)
      else run_bind (parse_protos inp inlen 0 []) (\<lambda>r1.
      case r1 of
        None \<Rightarrow> Inr (SSL_TLSEXT_ERR_ALERT_FATAL, None)
      | Some client_protos \<Rightarrow>
          (case alpn of
             None \<Rightarrow> Inr (SSL_TLSEXT_ERR_ALERT_FATAL, None)
           | Some a \<Rightarrow>
               (if alpnlen = 0 then Inr (SSL_TLSEXT_ERR_ALERT_FATAL, None)
                else run_bind (parse_protos a (nat alpnlen) 0 []) (\<lambda>r2.
                case r2 of
                  None \<Rightarrow> Inr (SSL_TLSEXT_ERR_ALERT_FATAL, None)
                | Some proposed_protos \<Rightarrow>
                    (if length proposed_protos = 0 then Inr (SSL_TLSEXT_ERR_ALERT_FATAL, None)
                     else
                       (let out = select_best client_protos proposed_protos; len = length out in
                        if len > 255 then Inr (SSL_TLSEXT_ERR_ALERT_FATAL, None)
                        else Inr (SSL_TLSEXT_ERR_OK, Some (out, word_of_nat len)))))))))"

lemma alpn_names_length: "alpn_names bs = Some ms \<Longrightarrow> m \<in> set ms \<Longrightarrow> length m \<le> 255"
  using alpn_format.decode_onto [of bs ms] length_c_str_le
  by (fastforce simp: fits_byte_def intro: le_trans)

lemma select_best_in: "ps \<noteq> [] \<Longrightarrow> select_best cs ps \<in> set ps"
  using alpn_pref.best_of_in [of cs "hd ps" "tl ps"] by (simp add: select_best_def)

lemma alpn_names_empty: "alpn_names [] = Some []"
  by (simp add: alpn_names_def parse_protos.simps)

text \<open>The whole callback over the parsed lists.\<close>

lemma cb_server_alpn_eq:
  "cb_server_alpn (Some a) (int (length a)) inp (length inp) =
     (case (inp, alpn_names inp, alpn_names a) of
        (_ # _, Some cs, Some (p # ps)) \<Rightarrow>
          Inr (SSL_TLSEXT_ERR_OK, Some (select_best cs (p # ps),
                                        word_of_nat (length (select_best cs (p # ps)))))
      | _ \<Rightarrow> Inr (SSL_TLSEXT_ERR_ALERT_FATAL, None))"
proof -
  have "\<not> 255 < length (select_best cs (p # ps))" if "alpn_names a = Some (p # ps)" for cs p ps
    using alpn_names_length [OF that select_best_in [of "p # ps" cs, OF list.distinct(2)]]
    by (simp only: not_less)
  then show ?thesis
    unfolding cb_server_alpn_def nat_int parse_protos_alpn_names run_bind.simps
    using alpn_names_empty
    by (cases "alpn_names inp"; cases "alpn_names a") (auto simp: Let_def parse_protos_alpn_names split: list.splits)
qed

text \<open>Where the client lists a proposal, the first such name of the client's list wins.\<close>

lemma ssl_array_index_find:
  assumes "find (\<lambda>c. c \<in> set ps) cs = Some q"
  shows "q \<in> set cs" and "q \<in> set ps"
    and "p \<in> set ps \<Longrightarrow> p \<in> set cs \<Longrightarrow> ssl_array_index cs q \<le> ssl_array_index cs p"
proof -
  obtain i where i: "i < length cs" "cs ! i = q" "q \<in> set ps" "\<And>j. j < i \<Longrightarrow> cs ! j \<notin> set ps"
    using assms by (auto simp: find_Some_iff)
  then show "q \<in> set cs" "q \<in> set ps" by auto
  have le: "array_index_loop xs q k \<le> int (k + j)" if "j < length xs" "xs ! j = q" for xs j k
    using that
  proof (induction xs q k arbitrary: j rule: array_index_loop.induct)
    case (2 p ps s i)
    then show ?case using "2.IH" [of "j - 1"] by (cases j) auto
  qed simp
  show "ssl_array_index cs q \<le> ssl_array_index cs p" if "p \<in> set ps" "p \<in> set cs"
  proof (cases rule: ssl_array_index_cases [of p cs])
    case absent
    then show ?thesis using that by simp
  next
    case (present n)
    then have "i \<le> n" using i(4) [of n] that by force
    then show ?thesis
      using present le [OF i(1,2), of 0] by (simp add: ssl_array_index_def)
  qed
qed

lemma select_best_common:
  assumes "find (\<lambda>c. c \<in> set (p # ps)) cs = Some q"
  shows "select_best cs (p # ps) = q"
proof -
  note q = ssl_array_index_find [OF assms]
  have "ssl_cmp_alpn_protos cs x q < 0" if "x \<in> set (p # ps)" "x \<noteq> q" for x
  proof (cases "x \<in> set cs")
    case True
    then have "ssl_array_index cs q \<le> ssl_array_index cs x" and "ssl_array_index cs x \<noteq> ssl_array_index cs q"
      using q(3) that ssl_array_index_inj [OF _ True, of q] by auto
    then show ?thesis using q(1) by (simp add: ssl_cmp_less_iff ssl_array_index_nonneg_iff)
  next
    case False
    then have "ssl_array_index cs x < 0"
      using ssl_array_index_nonneg_iff [of cs x] by simp
    then show ?thesis using q(1) by (simp add: ssl_cmp_less_iff ssl_array_index_nonneg_iff)
  qed
  then show ?thesis
    using alpn_pref.best_of_unique [of q p ps cs] q(2) by (simp add: select_best_def)
qed

text \<open>Without a common name, \<open>strcmp\<close> decides.\<close>

lemma select_best_disjoint:
  assumes "set (p # ps) \<inter> set cs = {}" and "x \<in> set (p # ps)"
  shows "0 \<le> strcmp (select_best cs (p # ps)) x"
proof -
  have in_ps: "select_best cs (p # ps) \<in> set (p # ps)"
    by (rule select_best_in) simp
  have idx: "ssl_array_index cs y = -1" if "y \<in> set (p # ps)" for y
    using assms(1) that by (cases rule: ssl_array_index_cases [of y cs]) auto
  have "\<not> ssl_cmp_alpn_protos cs (select_best cs (p # ps)) x < 0"
    using alpn_pref.best_of_top [of x p ps cs] assms(2) by (simp add: select_best_def)
  then show ?thesis
    using idx [OF in_ps] idx [OF assms(2)] by (simp add: ssl_cmp_less_iff)
qed

section \<open>Properties\<close>

text \<open>
  For every list the client sends and every list that is configured, the callback reads
  inside the two buffers only.
\<close>

theorem cb_server_alpn_safe:
  "safe (cb_server_alpn (Some alpn) (int (length alpn)) inp (length inp))"
  by (auto simp: cb_server_alpn_eq split: option.splits list.splits)



text \<open>The selection from two well-formed lists.\<close>

lemma cb_server_alpn_selects:
  assumes "valid_names ps" and "valid_names cs" and "\<forall>n \<in> set (ps @ cs). 0 \<notin> set n"
    and "find (\<lambda>c. c \<in> set ps) cs = Some q"
  shows "cb_server_alpn (Some (wire ps)) (int (length (wire ps))) (wire cs) (length (wire cs))
    = Inr (SSL_TLSEXT_ERR_OK, Some (q, word_of_nat (length q)))"
proof -
  have names: "alpn_names (wire ns) = Some ns" if "ns = ps \<or> ns = cs" for ns
    using that assms(1-3)
    by (intro alpn_format.roundtrip) (auto simp: fits_byte_def valid_names_def valid_name_def c_str_id)
  have "ps \<noteq> []" "cs \<noteq> []"
    using ssl_array_index_find(1,2) [OF assms(4)] by auto
  then show ?thesis
    unfolding cb_server_alpn_eq
    using select_best_common [of "hd ps" "tl ps" cs q] assms(4) names
    by (auto split: list.splits)
qed



text \<open>
  When the lists have no name in common the callback does not refuse: it selects the
  proposal whose name is the greatest in \<open>strcmp\<close> order.
\<close>

theorem cb_server_alpn_disjoint:
  assumes "valid_names ps" and "valid_names cs" and "\<forall>n \<in> set (ps @ cs). 0 \<notin> set n"
    and "ps \<noteq> []" and "cs \<noteq> []" and "set ps \<inter> set cs = {}"
  shows "\<exists>q \<in> set ps. (\<forall>p \<in> set ps. 0 \<le> strcmp q p) \<and>
    cb_server_alpn (Some (wire ps)) (int (length (wire ps))) (wire cs) (length (wire cs))
      = Inr (SSL_TLSEXT_ERR_OK, Some (q, word_of_nat (length q)))"
proof -
  have names: "alpn_names (wire ns) = Some ns" if "ns = ps \<or> ns = cs" for ns
    using that assms(1-3)
    by (intro alpn_format.roundtrip) (auto simp: fits_byte_def valid_names_def valid_name_def c_str_id)
  obtain p ps' where ps: "ps = p # ps'" using assms(4) by (cases ps) auto
  show ?thesis
  proof (intro bexI conjI ballI)
    show "cb_server_alpn (Some (wire ps)) (int (length (wire ps))) (wire cs) (length (wire cs))
      = Inr (SSL_TLSEXT_ERR_OK, Some (select_best cs ps, word_of_nat (length (select_best cs ps))))"
      unfolding cb_server_alpn_eq using names assms(4,5) by (auto split: list.splits)
    show "0 \<le> strcmp (select_best cs ps) x" if "x \<in> set ps" for x
      using select_best_disjoint [of p ps' cs x] assms(6) that ps by simp
  qed (rule select_best_in [OF assms(4)])
qed

theorem cb_server_alpn_disjoint_witness:
  "\<exists>q \<in> set [[97], [98 :: byte]]. (\<forall>p \<in> set [[97], [98]]. 0 \<le> strcmp q p) \<and>
    cb_server_alpn (Some (wire [[97], [98]])) (int (length (wire [[97], [98]])))
      (wire [[104, 50]]) (length (wire [[104, 50]]))
    = Inr (SSL_TLSEXT_ERR_OK, Some (q, word_of_nat (length q)))"
  by (rule cb_server_alpn_disjoint) (simp_all add: valid_name_def)

end
