(* ===== verification/Ssl_Types.thy ===== *)
theory Ssl_Types
  imports C_Model
begin

text \<open>
  The types and constants of \<^verbatim>\<open>native/include/ssl_private.h\<close> that the components
  share: \<open>tcn_ssl_ctxt_t\<close>, \<open>tcn_ssl_conn_t\<close>, \<open>tcn_ssl_conf_ctxt_t\<close>, the verification
  modes and the OCSP codes. Pointers to objects of OpenSSL, APR and the JVM are numbers
  (\<open>ptr\<close>), NULL is \<open>None\<close>. The \<open>SSL_CTX\<close> itself is not a field: what the code
  does to it is the trace of calls that the operations return.
\<close>

section \<open>Constants\<close>

definition SSL_CVERIFY_UNSET :: int where "SSL_CVERIFY_UNSET = -1"
definition SSL_CVERIFY_NONE :: int where "SSL_CVERIFY_NONE = 0"
definition SSL_CVERIFY_OPTIONAL :: int where "SSL_CVERIFY_OPTIONAL = 1"
definition SSL_CVERIFY_REQUIRE :: int where "SSL_CVERIFY_REQUIRE = 2"
definition SSL_CVERIFY_OPTIONAL_NO_CA :: int where "SSL_CVERIFY_OPTIONAL_NO_CA = 3"

definition SSL_SHUTDOWN_TYPE_UNSET :: int where "SSL_SHUTDOWN_TYPE_UNSET = 0"

definition OCSP_STATUS_OK :: int where "OCSP_STATUS_OK = 0"
definition OCSP_STATUS_REVOKED :: int where "OCSP_STATUS_REVOKED = 1"
definition OCSP_STATUS_UNKNOWN :: int where "OCSP_STATUS_UNKNOWN = 2"
definition OCSP_NO_CHECK_DEFAULT :: int where "OCSP_NO_CHECK_DEFAULT = 1"
definition OCSP_SOFT_FAIL_DEFAULT :: int where "OCSP_SOFT_FAIL_DEFAULT = 1"
definition OCSP_VERIFY_FLAGS_DEFAULT :: int where "OCSP_VERIFY_FLAGS_DEFAULT = 0"
definition OCSP_TIMEOUT_DEFAULT :: int where "OCSP_TIMEOUT_DEFAULT = 15000000"

definition SSL_MAX_PASSWORD_LEN :: nat where "SSL_MAX_PASSWORD_LEN = 256"
definition SSL_DEFAULT_CACHE_SIZE :: nat where "SSL_DEFAULT_CACHE_SIZE = 256"

text \<open>Verification errors of OpenSSL (\<^verbatim>\<open>x509_vfy.h\<close>) and their extension.\<close>

definition X509_V_OK :: int where "X509_V_OK = 0"
definition X509_V_ERR_UNABLE_TO_GET_CRL :: int where "X509_V_ERR_UNABLE_TO_GET_CRL = 3"
definition X509_V_ERR_CRL_HAS_EXPIRED :: int where "X509_V_ERR_CRL_HAS_EXPIRED = 12"
definition X509_V_ERR_DEPTH_ZERO_SELF_SIGNED_CERT :: int where
  "X509_V_ERR_DEPTH_ZERO_SELF_SIGNED_CERT = 18"
definition X509_V_ERR_SELF_SIGNED_CERT_IN_CHAIN :: int where
  "X509_V_ERR_SELF_SIGNED_CERT_IN_CHAIN = 19"
definition X509_V_ERR_UNABLE_TO_GET_ISSUER_CERT_LOCALLY :: int where
  "X509_V_ERR_UNABLE_TO_GET_ISSUER_CERT_LOCALLY = 20"
definition X509_V_ERR_UNABLE_TO_VERIFY_LEAF_SIGNATURE :: int where
  "X509_V_ERR_UNABLE_TO_VERIFY_LEAF_SIGNATURE = 21"
definition X509_V_ERR_CERT_REVOKED :: int where "X509_V_ERR_CERT_REVOKED = 23"
definition X509_V_ERR_CERT_UNTRUSTED :: int where "X509_V_ERR_CERT_UNTRUSTED = 27"
definition X509_V_ERR_APPLICATION_VERIFICATION :: int where
  "X509_V_ERR_APPLICATION_VERIFICATION = 50"
definition X509_V_ERR_OCSP_RESP_INVALID :: int where "X509_V_ERR_OCSP_RESP_INVALID = 96"
definition X509_V_ERR_OCSP_SIGNATURE_FAILURE :: int where "X509_V_ERR_OCSP_SIGNATURE_FAILURE = 97"
definition X509_V_ERR_OCSP_NOT_YET_VALID :: int where "X509_V_ERR_OCSP_NOT_YET_VALID = 98"
definition X509_V_ERR_OCSP_HAS_EXPIRED :: int where "X509_V_ERR_OCSP_HAS_EXPIRED = 99"

definition SSL_VERIFY_ERROR_IS_OPTIONAL :: "int \<Rightarrow> bool" where
  "SSL_VERIFY_ERROR_IS_OPTIONAL errnum \<longleftrightarrow>
     errnum = X509_V_ERR_DEPTH_ZERO_SELF_SIGNED_CERT
     \<or> errnum = X509_V_ERR_SELF_SIGNED_CERT_IN_CHAIN
     \<or> errnum = X509_V_ERR_UNABLE_TO_GET_ISSUER_CERT_LOCALLY
     \<or> errnum = X509_V_ERR_CERT_UNTRUSTED
     \<or> errnum = X509_V_ERR_UNABLE_TO_VERIFY_LEAF_SIGNATURE"

lemmas ssl_constants =
  SSL_CVERIFY_UNSET_def SSL_CVERIFY_NONE_def SSL_CVERIFY_OPTIONAL_def SSL_CVERIFY_REQUIRE_def
  SSL_CVERIFY_OPTIONAL_NO_CA_def OCSP_STATUS_OK_def OCSP_STATUS_REVOKED_def OCSP_STATUS_UNKNOWN_def
  X509_V_OK_def X509_V_ERR_UNABLE_TO_GET_CRL_def X509_V_ERR_CRL_HAS_EXPIRED_def
  X509_V_ERR_DEPTH_ZERO_SELF_SIGNED_CERT_def X509_V_ERR_SELF_SIGNED_CERT_IN_CHAIN_def
  X509_V_ERR_UNABLE_TO_GET_ISSUER_CERT_LOCALLY_def X509_V_ERR_UNABLE_TO_VERIFY_LEAF_SIGNATURE_def
  X509_V_ERR_CERT_REVOKED_def X509_V_ERR_CERT_UNTRUSTED_def X509_V_ERR_APPLICATION_VERIFICATION_def
  X509_V_ERR_OCSP_RESP_INVALID_def X509_V_ERR_OCSP_SIGNATURE_FAILURE_def
  X509_V_ERR_OCSP_NOT_YET_VALID_def X509_V_ERR_OCSP_HAS_EXPIRED_def

section \<open>Contexts and connections\<close>

type_synonym ptr = nat

text \<open>
  \<open>tcn_ssl_ctxt_t\<close>. \<open>cb_data\<close> is NULL or the address of the one global
  \<open>tcn_password_callback\<close>, a Boolean here. \<open>cipher_suite\<close>, which no function uses, and
  the pool are left out.
\<close>

record tcn_ssl_ctxt_t =
  c_ctx :: "ptr option"
  c_bio_os :: "ptr option"
  c_bio_is :: "ptr option"
  c_context_id :: "byte list"
  c_protocol :: int
  c_mode :: int
  c_crl :: "ptr option"
  c_store :: "ptr option"
  c_certs :: "ptr option list"
  c_keys :: "ptr option list"
  c_ca_certs :: int
  c_shutdown_type :: int
  c_rand_file :: "byte list option"
  c_verify_depth :: int
  c_verify_mode :: int
  c_cb_data :: bool
  c_alpn :: "byte list option"
  c_alpnlen :: int
  c_verifier :: "ptr option"
  c_verifier_method :: "ptr option"
  c_next_proto_data :: "byte list option"
  c_next_proto_len :: nat
  c_alpn_proto_data :: "block option"
  c_alpn_proto_len :: nat
  c_alpn_selector_failure_behavior :: int
  c_no_ocsp_check :: int
  c_ocsp_soft_fail :: int
  c_ocsp_timeout :: int
  c_ocsp_verify_flags :: int

datatype reneg_state = RENEG_INIT | RENEG_REJECT | RENEG_ALLOW | RENEG_ABORT
datatype pha_state = PHA_NONE | PHA_STARTED | PHA_COMPLETE

text \<open>\<open>tcn_ssl_conn_t\<close>; its \<open>ctx\<close> is a separate argument of the operations.\<close>

record tcn_ssl_conn_t =
  con_ssl :: "ptr option"
  con_peer :: "ptr option"
  con_shutdown_type :: int
  con_reneg_state :: reneg_state
  con_pha_state :: pha_state

text \<open>\<open>tcn_ssl_conf_ctxt_t\<close>.\<close>

record tcn_ssl_conf_ctxt_t =
  cc_cctx :: "ptr option"
  cc_no_ocsp_check :: int
  cc_ocsp_soft_fail :: int
  cc_ocsp_timeout :: int
  cc_ocsp_verify_flags :: int

end
