(* ===== verification/Ssl_Context.thy ===== *)
theory Ssl_Context
  imports Ssl_Types Alpn_Protocols
begin

unbundle bit_operations_syntax

text \<open>
  The life and the settings of an SSL context, \<^verbatim>\<open>native/src/sslcontext.c\<close>:
  \<open>make\<close>, \<open>ssl_context_cleanup\<close>, \<open>free\<close> and the operations that configure a
  context between the two.

  An operation returns its result, the changed \<open>tcn_ssl_ctxt_t\<close> and the calls it makes to
  OpenSSL, APR and the JVM, in order (\<open>call\<close>). What those return are arguments of the
  operation. The model is that of OpenSSL 3: TLS 1.3 and elliptic curves are available,
  export ciphers are not.
\<close>

section \<open>Calls\<close>

datatype proto_version = SSL3_VERSION | TLS1_VERSION | TLS1_1_VERSION | TLS1_2_VERSION | TLS1_3_VERSION

datatype tls_method = TLS_client_method | TLS_server_method | TLS_method

datatype ssl_op =
    SSL_OP_ALL
  | SSL_OP_SINGLE_DH_USE
  | SSL_OP_SINGLE_ECDH_USE
  | SSL_OP_NO_COMPRESSION
  | SSL_OP_NO_SESSION_RESUMPTION_ON_RENEGOTIATION
  | SSL_OP_BITS "32 word"

datatype info_callback = SSL_callback_handshake_cb | ssl_info_callback_cb

datatype alpn_callback = cb_server_alpn_cb | SSL_callback_alpn_select_proto_cb

datatype call =
    SSL_CTX_new tls_method
  | SSL_CTX_free ptr
  | X509_free ptr
  | EVP_PKEY_free ptr
  | Libc_free ptr
  | SSL_BIO_close ptr
  | SSL_BIO_doref "ptr option"
  | New_Global_Ref ptr
  | Delete_Global_Ref ptr
  | Free_Data
  | Throw string
  | Add_Keylog
  | Cache_Classes
  | Register_Cleanup
  | CTX_set_options ssl_op
  | CTX_clear_options "32 word"
  | CTX_set_max_proto_version proto_version
  | CTX_set_min_proto_version proto_version
  | CTX_set_app_data
  | CTX_set_mode_release_buffers
  | CTX_set_cache_size int
  | CTX_set_session_cache_mode int
  | CTX_set_timeout int
  | CTX_set_passwd_cb
  | CTX_set_info_callback info_callback
  | CTX_set_quiet_shutdown int
  | CTX_set_cipher_list "byte list"
  | CTX_set_ciphersuites "byte list"
  | CTX_set_verify int
  | CTX_load_verify_locations "byte list option" "byte list option"
  | CTX_set_client_CA_list
  | CTX_add_client_CA ptr
  | CTX_use_certificate "ptr option"
  | CTX_use_PrivateKey "ptr option"
  | CTX_add_chain_cert ptr
  | CTX_clear_extra_chain
  | CTX_set_tmp_dh ptr
  | CTX_set_groups int
  | CTX_set_dh_auto
  | CTX_set_alpn_select_cb alpn_callback
  | CTX_set_alpn_protos "byte list"
  | CTX_set_cert_verify_callback bool
  | CTX_set_ticket_keys "byte list"
  | CTX_set_session_id_context "byte list"
  | STORE_load_file "byte list"
  | STORE_add_dir "byte list"
  | STORE_set_crl_flags
  | Warn
  | Exit int

section \<open>Protocol versions\<close>

text \<open>The versions in their order.\<close>

fun version_rank :: "proto_version \<Rightarrow> nat" where
  "version_rank SSL3_VERSION = 0"
| "version_rank TLS1_VERSION = 1"
| "version_rank TLS1_1_VERSION = 2"
| "version_rank TLS1_2_VERSION = 3"
| "version_rank TLS1_3_VERSION = 4"

lemma version_rank_inject: "version_rank v = version_rank w \<Longrightarrow> v = w"
  by (cases v; cases w) auto

instantiation proto_version :: linorder
begin

definition less_eq_proto_version :: "proto_version \<Rightarrow> proto_version \<Rightarrow> bool" where
  "less_eq_proto_version v w \<longleftrightarrow> version_rank v \<le> version_rank w"

definition less_proto_version :: "proto_version \<Rightarrow> proto_version \<Rightarrow> bool" where
  "less_proto_version v w \<longleftrightarrow> version_rank v < version_rank w"

instance
  by standard (auto simp: less_eq_proto_version_def less_proto_version_def intro: version_rank_inject)

end

definition SSL_PROTOCOL_NONE :: "32 word" where "SSL_PROTOCOL_NONE = 0"
definition SSL_PROTOCOL_SSLV3 :: "32 word" where "SSL_PROTOCOL_SSLV3 = 2"
definition SSL_PROTOCOL_TLSV1 :: "32 word" where "SSL_PROTOCOL_TLSV1 = 4"
definition SSL_PROTOCOL_TLSV1_1 :: "32 word" where "SSL_PROTOCOL_TLSV1_1 = 8"
definition SSL_PROTOCOL_TLSV1_2 :: "32 word" where "SSL_PROTOCOL_TLSV1_2 = 16"
definition SSL_PROTOCOL_TLSV1_3 :: "32 word" where "SSL_PROTOCOL_TLSV1_3 = 32"

definition has_proto :: "32 word \<Rightarrow> 32 word \<Rightarrow> bool" where
  "has_proto protocol bits \<longleftrightarrow> protocol AND bits \<noteq> 0"

definition max_version :: "32 word \<Rightarrow> proto_version option" where
  "max_version protocol =
     (if has_proto protocol SSL_PROTOCOL_TLSV1_3 then Some TLS1_3_VERSION
      else if has_proto protocol SSL_PROTOCOL_TLSV1_2 then Some TLS1_2_VERSION
      else if has_proto protocol SSL_PROTOCOL_TLSV1_1 then Some TLS1_1_VERSION
      else if has_proto protocol SSL_PROTOCOL_TLSV1 then Some TLS1_VERSION
      else if has_proto protocol SSL_PROTOCOL_SSLV3 then Some SSL3_VERSION
      else None)"

definition min_version :: "32 word \<Rightarrow> proto_version \<Rightarrow> proto_version" where
  "min_version protocol prot =
     (let prot = (if prot = TLS1_3_VERSION \<and> has_proto protocol SSL_PROTOCOL_TLSV1_2 then TLS1_2_VERSION else prot);
          prot = (if prot = TLS1_2_VERSION \<and> has_proto protocol SSL_PROTOCOL_TLSV1_1 then TLS1_1_VERSION else prot);
          prot = (if prot = TLS1_1_VERSION \<and> has_proto protocol SSL_PROTOCOL_TLSV1 then TLS1_VERSION else prot);
          prot = (if prot = TLS1_VERSION \<and> has_proto protocol SSL_PROTOCOL_SSLV3 then SSL3_VERSION else prot)
      in prot)"

section \<open>Making a context\<close>

definition SSL_MODE_CLIENT :: int where "SSL_MODE_CLIENT = 0"
definition SSL_MODE_SERVER :: int where "SSL_MODE_SERVER = 1"
definition SSL_AIDX_MAX :: nat where "SSL_AIDX_MAX = 4"

definition SSL_DEFAULT_VHOST_NAME :: "byte list" where
  "SSL_DEFAULT_VHOST_NAME = map of_char ''_default_:443''"

text \<open>
  What \<open>make\<close> depends on: the results of \<open>SSL_CTX_new\<close>, of the allocation of the
  context and of \<open>BIO_new\<close>, whether a key log file is open and the Java classes are cached,
  and the digest SHA-1.
\<close>

record make_env =
  m_ctx_new :: "tls_method \<Rightarrow> ptr option"
  m_pcalloc :: bool
  m_bio_new :: "ptr option"
  m_key_log_file :: bool
  m_classes_cached :: bool
  m_sha1 :: "byte list \<Rightarrow> byte list"

definition zero_ctxt :: tcn_ssl_ctxt_t where
  "zero_ctxt =
     \<lparr>c_ctx = None, c_bio_os = None, c_bio_is = None, c_context_id = replicate 20 0, c_protocol = 0,
      c_mode = 0, c_crl = None, c_store = None, c_certs = replicate SSL_AIDX_MAX None,
      c_keys = replicate SSL_AIDX_MAX None, c_ca_certs = 0, c_shutdown_type = 0, c_rand_file = None,
      c_verify_depth = 0, c_verify_mode = 0, c_cb_data = False, c_alpn = None, c_alpnlen = 0,
      c_verifier = None, c_verifier_method = None, c_next_proto_data = None, c_next_proto_len = 0,
      c_alpn_proto_data = None, c_alpn_proto_len = 0, c_alpn_selector_failure_behavior = 0,
      c_no_ocsp_check = 0, c_ocsp_soft_fail = 0, c_ocsp_timeout = 0, c_ocsp_verify_flags = 0\<rparr>"

definition SSL_CTX_method :: "int \<Rightarrow> tls_method" where
  "SSL_CTX_method mode =
     (if mode = SSL_MODE_CLIENT then TLS_client_method
      else if mode = SSL_MODE_SERVER then TLS_server_method else TLS_method)"

definition SSLContext_make :: "make_env \<Rightarrow> 32 word \<Rightarrow> int \<Rightarrow> tcn_ssl_ctxt_t option \<times> call list" where
  "SSLContext_make env protocol mode =
     (if protocol = SSL_PROTOCOL_NONE then (None, [Throw ''No SSL protocols requested''])
      else
        (case m_ctx_new env (SSL_CTX_method mode) of
           None \<Rightarrow> (None, [SSL_CTX_new (SSL_CTX_method mode), Throw ''Invalid Server SSL Protocol''])
         | Some ctx \<Rightarrow>
             if \<not> m_pcalloc env then (None, [SSL_CTX_new (SSL_CTX_method mode), Throw ''APR''])
             else
               (let calls = [SSL_CTX_new (SSL_CTX_method mode)] @ (if m_key_log_file env then [Add_Keylog] else []) @
                      [CTX_set_options SSL_OP_ALL];
                    c = zero_ctxt\<lparr>c_protocol := sint protocol, c_mode := mode, c_ctx := Some ctx,
                                  c_bio_os := m_bio_new env\<rparr>
                in case max_version protocol of
                     None \<Rightarrow> (None, calls @ [SSL_CTX_free ctx, Throw ''Invalid Server SSL Protocol''])
                   | Some prot \<Rightarrow>
                       (Some (c\<lparr>c_context_id := m_sha1 env SSL_DEFAULT_VHOST_NAME, c_verify_depth := 1,
                                c_verify_mode := SSL_CVERIFY_UNSET, c_shutdown_type := SSL_SHUTDOWN_TYPE_UNSET,
                                c_no_ocsp_check := OCSP_NO_CHECK_DEFAULT, c_ocsp_soft_fail := OCSP_SOFT_FAIL_DEFAULT,
                                c_ocsp_timeout := OCSP_TIMEOUT_DEFAULT,
                                c_ocsp_verify_flags := OCSP_VERIFY_FLAGS_DEFAULT\<rparr>),
                        calls @
                        [CTX_set_max_proto_version prot,
                         CTX_set_min_proto_version (min_version protocol prot),
                         CTX_set_options SSL_OP_SINGLE_DH_USE,
                         CTX_set_options SSL_OP_SINGLE_ECDH_USE,
                         CTX_set_options SSL_OP_NO_COMPRESSION,
                         CTX_set_app_data,
                         CTX_set_options SSL_OP_NO_SESSION_RESUMPTION_ON_RENEGOTIATION,
                         CTX_set_mode_release_buffers,
                         CTX_set_cache_size (int SSL_DEFAULT_CACHE_SIZE),
                         CTX_set_session_cache_mode 0,
                         CTX_set_timeout 14400,
                         CTX_set_passwd_cb,
                         CTX_set_info_callback SSL_callback_handshake_cb,
                         Register_Cleanup] @
                        (if m_classes_cached env then [] else [Cache_Classes])))))"

section \<open>Destroying a context\<close>

definition free_opt :: "(ptr \<Rightarrow> call) \<Rightarrow> ptr option \<Rightarrow> call list" where
  "free_opt f p = (case p of None \<Rightarrow> [] | Some x \<Rightarrow> [f x])"

fun free_pairs :: "ptr option list \<Rightarrow> ptr option list \<Rightarrow> call list" where
  "free_pairs (x # xs) (k # ks) = free_opt X509_free x @ free_opt EVP_PKEY_free k @ free_pairs xs ks"
| "free_pairs _ _ = []"

definition ssl_context_cleanup :: "tcn_ssl_ctxt_t \<Rightarrow> tcn_ssl_ctxt_t \<times> call list" where
  "ssl_context_cleanup c =
     (c\<lparr>c_crl := None, c_store := None, c_ctx := None,
        c_certs := replicate (length (c_certs c)) None, c_keys := replicate (length (c_keys c)) None,
        c_bio_is := None, c_bio_os := None, c_verifier := None, c_verifier_method := None,
        c_next_proto_data := None, c_next_proto_len := 0,
        c_alpn_proto_data := None, c_alpn_proto_len := 0\<rparr>,
      free_opt SSL_CTX_free (c_ctx c) @ free_pairs (c_certs c) (c_keys c) @
      free_opt SSL_BIO_close (c_bio_is c) @ free_opt SSL_BIO_close (c_bio_os c) @
      free_opt Delete_Global_Ref (c_verifier c) @
      (if c_next_proto_data c = None then [] else [Free_Data]) @
      (if c_alpn_proto_data c = None then [] else [Free_Data]))"

text \<open>\<open>SSLContext.free\<close>: \<open>apr_pool_cleanup_run\<close> runs the cleanup, registered or not.\<close>

definition SSLContext_free :: "tcn_ssl_ctxt_t \<Rightarrow> tcn_ssl_ctxt_t \<times> call list" where
  "SSLContext_free c = ssl_context_cleanup c"

section \<open>Settings\<close>

definition setContextId :: "(byte list \<Rightarrow> byte list) \<Rightarrow> byte list option \<Rightarrow> tcn_ssl_ctxt_t \<Rightarrow> tcn_ssl_ctxt_t" where
  "setContextId sha1 vhost c = (case vhost of None \<Rightarrow> c | Some s \<Rightarrow> c\<lparr>c_context_id := sha1 (c_str s)\<rparr>)"

definition setBIO :: "ptr option \<Rightarrow> int \<Rightarrow> tcn_ssl_ctxt_t \<Rightarrow> tcn_ssl_ctxt_t \<times> call list" where
  "setBIO bio_handle dir c =
     (if dir = 0 then
        (c\<lparr>c_bio_os := bio_handle\<rparr>,
         (case c_bio_os c of None \<Rightarrow> [] | Some b \<Rightarrow> if c_bio_os c \<noteq> bio_handle then [SSL_BIO_close b] else []) @
         [SSL_BIO_doref bio_handle])
      else if dir = 1 then
        (c\<lparr>c_bio_is := bio_handle\<rparr>,
         (case c_bio_is c of None \<Rightarrow> [] | Some b \<Rightarrow> if c_bio_is c \<noteq> bio_handle then [SSL_BIO_close b] else []) @
         [SSL_BIO_doref bio_handle])
      else (c, []))"

definition setOptions :: "32 word \<Rightarrow> call list" where
  "setOptions opt = [CTX_set_options (SSL_OP_BITS opt)]"

definition clearOptions :: "32 word \<Rightarrow> call list" where
  "clearOptions opt = [CTX_clear_options opt]"

definition setQuietShutdown :: "bool \<Rightarrow> call list" where
  "setQuietShutdown mode = [CTX_set_quiet_shutdown (if mode then 1 else 0)]"

definition SSL_CIPHERS_ALWAYS_DISABLED :: "byte list" where
  "SSL_CIPHERS_ALWAYS_DISABLED = map of_char ''!aNULL:!eNULL:!EXP:''"

text \<open>
  \<open>setCipherSuite\<close>: \<open>c\<close> is \<open>None\<close> for a NULL context, \<open>accepts\<close> is OpenSSL's verdict
  on a list. The buffer is filled and terminated before it is read as a C string.
\<close>

definition cipher_buf :: "byte list \<Rightarrow> block run" where
  "cipher_buf s =
     (let len = strlen s + strlen SSL_CIPHERS_ALWAYS_DISABLED + 1 in
      run_bind (wrn_cell (malloc_block len) 0 (take (strlen SSL_CIPHERS_ALWAYS_DISABLED) SSL_CIPHERS_ALWAYS_DISABLED))
        (\<lambda>buf.
      run_bind (wrn_cell buf (strlen SSL_CIPHERS_ALWAYS_DISABLED) (take (strlen s) s)) (\<lambda>buf.
      wrn_cell buf (len - 1) [0])))"

definition setCipherSuite ::
  "bool \<Rightarrow> (byte list \<Rightarrow> bool) \<Rightarrow> byte list option \<Rightarrow> tcn_ssl_ctxt_t option \<Rightarrow> (bool \<times> call list) run" where
  "setCipherSuite malloc_ok accepts cipherList c =
     (case c of
        None \<Rightarrow> Inr (False, [Throw ''ssl context is null''])
      | Some _ \<Rightarrow>
          (case cipherList of
             None \<Rightarrow> Inr (False, [])
           | Some s \<Rightarrow>
               if \<not> malloc_ok then Inr (False, [])
               else run_bind (cipher_buf s) (\<lambda>buf.
                    run_bind (rdn_cell buf 0 (length buf)) (\<lambda>bs.
                    if \<not> accepts (c_str bs)
                    then Inr (False, [CTX_set_cipher_list (c_str bs),
                                      Throw ''Unable to configure permitted SSL ciphers''])
                    else Inr (True, [CTX_set_cipher_list (c_str bs)])))))"

definition setCipherSuitesEx ::
  "(byte list \<Rightarrow> bool) \<Rightarrow> byte list option \<Rightarrow> tcn_ssl_ctxt_t option \<Rightarrow> bool \<times> call list" where
  "setCipherSuitesEx accepts cipherSuites c =
     (case c of
        None \<Rightarrow> (False, [Throw ''ssl context is null''])
      | Some _ \<Rightarrow>
          (case cipherSuites of
             None \<Rightarrow> (False, [])
           | Some s \<Rightarrow>
               if \<not> accepts (c_str s)
               then (False, [CTX_set_ciphersuites (c_str s), Throw ''Unable to configure permitted SSL cipher suites''])
               else (True, [CTX_set_ciphersuites (c_str s)])))"

text \<open>
  \<open>setCARevocation\<close>: the certificate store and the results of the two lookups and the two
  loads.
\<close>

record revocation_env =
  r_cert_store :: "ptr option"
  r_add_file_lookup :: bool
  r_load_file :: "byte list \<Rightarrow> bool"
  r_add_dir_lookup :: bool
  r_add_dir :: "byte list \<Rightarrow> bool"

definition setCARevocation ::
  "revocation_env \<Rightarrow> byte list option \<Rightarrow> byte list option \<Rightarrow> tcn_ssl_ctxt_t \<Rightarrow> bool \<times> tcn_ssl_ctxt_t \<times> call list" where
  "setCARevocation env file path c =
     (if file = None \<and> path = None then (False, c, [])
      else
        (let c = (if c_crl c = None then c\<lparr>c_crl := r_cert_store env\<rparr> else c);
             (ok1, calls1) =
               (case file of
                  None \<Rightarrow> (True, [])
                | Some f \<Rightarrow>
                    if \<not> r_add_file_lookup env then (False, [Throw ''Lookup failed for file''])
                    else if \<not> r_load_file env f then (False, [STORE_load_file f, Throw ''Load failed for file''])
                    else (True, [STORE_load_file f]))
         in if \<not> ok1 then (False, c\<lparr>c_crl := None\<rparr>, calls1)
            else
              (let (ok2, calls2) =
                     (case path of
                        None \<Rightarrow> (True, [])
                      | Some p \<Rightarrow>
                          if \<not> r_add_dir_lookup env then (False, [Throw ''Lookup failed for path''])
                          else if \<not> r_add_dir env p then (False, [STORE_add_dir p, Throw ''Load failed for path''])
                          else (True, [STORE_add_dir p]))
               in if \<not> ok2 then (False, c\<lparr>c_crl := None\<rparr>, calls1 @ calls2)
                  else (True, c, calls1 @ calls2 @ [STORE_set_crl_flags]))))"

text \<open>\<open>setCACertificate\<close>, with what OpenSSL answers.\<close>

record ca_env =
  a_load_locations :: bool
  a_cert_store :: "ptr option"
  a_client_CA_list :: bool
  a_load_client_CA_file :: bool
  a_add_subjects :: bool

definition setCACertificate ::
  "ca_env \<Rightarrow> byte list option \<Rightarrow> byte list option \<Rightarrow> tcn_ssl_ctxt_t \<Rightarrow> bool \<times> tcn_ssl_ctxt_t \<times> call list" where
  "setCACertificate env file path c =
     (if file = None \<and> path = None then (False, c, [])
      else if \<not> a_load_locations env then
        (False, c, [CTX_load_verify_locations file path, Throw ''Unable to configure locations for client authentication''])
      else
        (let c = c\<lparr>c_store := a_cert_store env\<rparr> in
         if c_mode c \<noteq> 0 then
           (let c = c\<lparr>c_ca_certs := c_ca_certs c + 1\<rparr>;
                (ca_certs, calls) =
                  (if \<not> a_client_CA_list env then
                     (if a_load_client_CA_file env then (True, [CTX_set_client_CA_list]) else (False, []))
                   else (\<not> (file \<noteq> None \<and> \<not> a_add_subjects env), []))
            in (True, c, [CTX_load_verify_locations file path] @ calls @
                 (if \<not> ca_certs \<and> c_verify_mode c = SSL_CVERIFY_REQUIRE then [Warn] else [])))
         else (True, c, [CTX_load_verify_locations file path])))"

definition setShutdownType :: "int \<Rightarrow> tcn_ssl_ctxt_t \<Rightarrow> tcn_ssl_ctxt_t" where
  "setShutdownType type c = c\<lparr>c_shutdown_type := type\<rparr>"

text \<open>\<open>SSL_VERIFY_PEER\<close> is 1, \<open>SSL_VERIFY_FAIL_IF_NO_PEER_CERT\<close> 2; the flags start as 0.\<close>

definition verify_flags :: "int \<Rightarrow> int" where
  "verify_flags verify_mode =
     (if verify_mode = SSL_CVERIFY_REQUIRE then 3
      else if verify_mode = SSL_CVERIFY_OPTIONAL \<or> verify_mode = SSL_CVERIFY_OPTIONAL_NO_CA then 1
      else 0)"

definition set_verify_fields :: "ptr option \<Rightarrow> int \<Rightarrow> int \<Rightarrow> tcn_ssl_ctxt_t \<Rightarrow> tcn_ssl_ctxt_t" where
  "set_verify_fields cert_store level depth c =
     (let c = c\<lparr>c_verify_mode := if level = SSL_CVERIFY_UNSET then SSL_CVERIFY_NONE else level\<rparr>;
          c = (if depth > 0 then c\<lparr>c_verify_depth := depth\<rparr> else c)
      in (if c_store c = None then c\<lparr>c_store := cert_store\<rparr> else c))"

definition setVerify :: "ptr option \<Rightarrow> int \<Rightarrow> int \<Rightarrow> tcn_ssl_ctxt_t \<Rightarrow> tcn_ssl_ctxt_t \<times> call list" where
  "setVerify cert_store level depth c =
     (let c = set_verify_fields cert_store level depth c in (c, [CTX_set_verify (verify_flags (c_verify_mode c))]))"

definition setRandom :: "byte list option \<Rightarrow> tcn_ssl_ctxt_t \<Rightarrow> tcn_ssl_ctxt_t" where
  "setRandom file c = (case file of None \<Rightarrow> c | Some f \<Rightarrow> c\<lparr>c_rand_file := Some (c_str f)\<rparr>)"

section \<open>ALPN\<close>

definition APR_ENOTIMPL :: int where "APR_ENOTIMPL = 70023"

text \<open>
  \<open>setALPN\<close>: when \<open>len\<close> exceeds the Java array, nothing is copied into the zeroed memory.
\<close>

definition setALPN :: "byte list \<Rightarrow> nat \<Rightarrow> tcn_ssl_ctxt_t \<Rightarrow> int \<times> tcn_ssl_ctxt_t \<times> call list" where
  "setALPN buf len c =
     (let c = c\<lparr>c_alpn := Some (if len \<le> length buf then take len buf else replicate len 0),
                c_alpnlen := int len\<rparr>
      in if c_mode c = SSL_MODE_SERVER then (0, c, [CTX_set_alpn_select_cb cb_server_alpn_cb])
         else (APR_ENOTIMPL, c, []))"

definition setAlpnProtos ::
  "bool \<Rightarrow> (nat \<Rightarrow> bool) \<Rightarrow> byte list option list option \<Rightarrow> int \<Rightarrow> tcn_ssl_ctxt_t
   \<Rightarrow> (tcn_ssl_ctxt_t \<times> call list) run" where
  "setAlpnProtos malloc_ok realloc_ok alpn_protos selectorFailureBehavior c =
     run_bind (initProtocols malloc_ok realloc_ok alpn_protos
                 \<lparr>slot_data = c_alpn_proto_data c, slot_len = c_alpn_proto_len c\<rparr>) (\<lambda>(rv, slot).
     let c = c\<lparr>c_alpn_proto_data := slot_data slot, c_alpn_proto_len := slot_len slot\<rparr> in
     if rv = 0 then
       (let c = c\<lparr>c_alpn_selector_failure_behavior := selectorFailureBehavior\<rparr> in
        if c_mode c = SSL_MODE_CLIENT then
          run_bind (case c_alpn_proto_data c of None \<Rightarrow> Inl Null_Deref
                    | Some b \<Rightarrow> rdn_cell b 0 (c_alpn_proto_len c)) (\<lambda>protos.
          Inr (c, [CTX_set_alpn_protos protos]))
        else Inr (c, [CTX_set_alpn_select_cb SSL_callback_alpn_select_proto_cb]))
     else Inr (c, []))"

section \<open>Sessions and verification by Java\<close>

definition setSessionCacheMode :: "int \<Rightarrow> call list" where
  "setSessionCacheMode mode = [CTX_set_session_cache_mode mode]"

definition setSessionCacheTimeout :: "int \<Rightarrow> call list" where
  "setSessionCacheTimeout timeout = [CTX_set_timeout timeout]"

text \<open>\<open>SSL_SESS_CACHE_SERVER\<close> is 2; the result is the size before.\<close>

definition setSessionCacheSize :: "int \<Rightarrow> int \<Rightarrow> int \<times> call list" where
  "setSessionCacheSize old sz =
     (if sz \<ge> 0 then (old, [CTX_set_session_cache_mode 2, CTX_set_cache_size sz]) else (0, []))"

definition TICKET_KEYS_SIZE :: nat where "TICKET_KEYS_SIZE = 80"

definition setSessionTicketKeys :: "byte list \<Rightarrow> call list" where
  "setSessionTicketKeys keys =
     (if length keys \<noteq> TICKET_KEYS_SIZE then [Warn, Exit 1] else [CTX_set_ticket_keys keys])"

definition setSessionIdContext :: "bool \<Rightarrow> byte list \<Rightarrow> bool \<times> call list" where
  "setSessionIdContext res sidCtx = (res, [CTX_set_session_id_context sidCtx])"

text \<open>
  \<open>setCertVerifyCallback\<close>: a verifier is an object with the method id that
  \<open>GetMethodID\<close> finds for it, and the global reference that \<open>NewGlobalRef\<close> returns.
\<close>

definition setCertVerifyCallback ::
  "(ptr option \<times> ptr) option \<Rightarrow> tcn_ssl_ctxt_t \<Rightarrow> tcn_ssl_ctxt_t \<times> call list" where
  "setCertVerifyCallback verifier c =
     (case verifier of
        None \<Rightarrow> (c, [CTX_set_cert_verify_callback False])
      | Some (method, ref) \<Rightarrow>
          (case method of
             None \<Rightarrow> (c, [])
           | Some m \<Rightarrow>
               (c\<lparr>c_verifier := Some ref, c_verifier_method := Some m\<rparr>,
                free_opt Delete_Global_Ref (c_verifier c) @ [New_Global_Ref ref, CTX_set_cert_verify_callback True])))"

section \<open>Contexts in use\<close>

text \<open>One operation on a context, with the calls it makes; arguments and answers are arbitrary.\<close>

inductive ctx_step :: "tcn_ssl_ctxt_t \<Rightarrow> call list \<Rightarrow> tcn_ssl_ctxt_t \<Rightarrow> bool" where
  step_context_id: "ctx_step c [] (setContextId sha1 vhost c)"
| step_bio: "setBIO bio dir c = (c', calls) \<Longrightarrow> ctx_step c calls c'"
| step_ca_revocation: "setCARevocation env file path c = (rv, c', calls) \<Longrightarrow> ctx_step c calls c'"
| step_ca_certificate: "setCACertificate cenv file path c = (rv, c', calls) \<Longrightarrow> ctx_step c calls c'"
| step_shutdown_type: "ctx_step c [] (setShutdownType type c)"
| step_verify: "setVerify store level depth c = (c', calls) \<Longrightarrow> ctx_step c calls c'"
| step_random: "ctx_step c [] (setRandom file c)"
| step_alpn: "setALPN buf len c = (rv', c', calls) \<Longrightarrow> ctx_step c calls c'"
| step_alpn_protos:
    "setAlpnProtos malloc_ok realloc_ok protos behavior c = Inr (c', calls) \<Longrightarrow> ctx_step c calls c'"
| step_verifier: "setCertVerifyCallback verifier c = (c', calls) \<Longrightarrow> ctx_step c calls c'"
| step_cleanup: "ssl_context_cleanup c = (c', calls) \<Longrightarrow> ctx_step c calls c'"

inductive_cases ctx_stepE: "ctx_step c calls c'"

inductive ctx_steps :: "tcn_ssl_ctxt_t \<Rightarrow> call list \<Rightarrow> tcn_ssl_ctxt_t \<Rightarrow> bool" where
  steps_refl: "ctx_steps c [] c"
| steps_step: "ctx_steps c calls c' \<Longrightarrow> ctx_step c' calls' c'' \<Longrightarrow> ctx_steps c (calls @ calls') c''"

text \<open>References created and not yet deleted, per reference.\<close>

definition live_refs :: "call list \<Rightarrow> ptr \<Rightarrow> int" where
  "live_refs calls p = int (count_list calls (New_Global_Ref p)) - int (count_list calls (Delete_Global_Ref p))"

lemma live_refs_append: "live_refs (calls @ calls') p = live_refs calls p + live_refs calls' p"
  by (simp add: live_refs_def)

definition held :: "ptr option \<Rightarrow> ptr \<Rightarrow> int" where
  "held r p = (if r = Some p then 1 else 0)"

lemma count_free_pairs:
  "count_list (free_pairs xs ks) (New_Global_Ref p) = 0" "count_list (free_pairs xs ks) (Delete_Global_Ref p) = 0"
  by (induction xs ks rule: free_pairs.induct) (auto simp: free_opt_def split: option.splits)

lemma ctx_step_refs:
  assumes "ctx_step c calls c'"
  shows "live_refs calls p = held (c_verifier c') p - held (c_verifier c) p"
  using assms
proof cases
  case step_alpn_protos
  then show ?thesis
    by (auto simp: setAlpnProtos_def live_refs_def held_def Let_def elim!: run_bind_InrE split: if_split_asm option.split_asm prod.split_asm)
qed (auto simp: live_refs_def held_def setContextId_def setBIO_def setCARevocation_def setCACertificate_def
    setShutdownType_def setVerify_def set_verify_fields_def setRandom_def setALPN_def
    setCertVerifyCallback_def ssl_context_cleanup_def free_opt_def count_free_pairs Let_def
    split: option.splits if_split_asm prod.split_asm)

lemma ctx_steps_refs:
  assumes "ctx_steps c calls c'"
  shows "live_refs calls p = held (c_verifier c') p - held (c_verifier c) p"
  using assms
  by induction (simp_all add: live_refs_append ctx_step_refs, simp add: live_refs_def)

section \<open>The range of protocol versions\<close>

text \<open>The bit of \<open>protocol\<close> that asks for a version.\<close>

fun version_bit :: "proto_version \<Rightarrow> 32 word" where
  "version_bit SSL3_VERSION = SSL_PROTOCOL_SSLV3"
| "version_bit TLS1_VERSION = SSL_PROTOCOL_TLSV1"
| "version_bit TLS1_1_VERSION = SSL_PROTOCOL_TLSV1_1"
| "version_bit TLS1_2_VERSION = SSL_PROTOCOL_TLSV1_2"
| "version_bit TLS1_3_VERSION = SSL_PROTOCOL_TLSV1_3"

definition requested :: "32 word \<Rightarrow> proto_version \<Rightarrow> bool" where
  "requested protocol v \<longleftrightarrow> has_proto protocol (version_bit v)"

lemma all_versions: "(\<forall>v. P v) \<longleftrightarrow> P SSL3_VERSION \<and> P TLS1_VERSION \<and> P TLS1_1_VERSION \<and> P TLS1_2_VERSION \<and> P TLS1_3_VERSION"
  by (metis proto_version.exhaust)

lemmas version_order = less_eq_proto_version_def less_proto_version_def

lemma max_version_requested:
  "max_version protocol = Some v \<longleftrightarrow> requested protocol v \<and> (\<forall>w. requested protocol w \<longrightarrow> w \<le> v)"
  by (cases v) (auto simp: max_version_def requested_def all_versions version_order)

lemma max_version_None: "max_version protocol = None \<longleftrightarrow> (\<forall>v. \<not> requested protocol v)"
  by (auto simp: max_version_def requested_def all_versions)

text \<open>
  The versions from the minimum to the maximum are requested, and the one below the minimum is
  not: the range is the longest one below the maximum without a hole.
\<close>

lemma min_version_range:
  assumes "max_version protocol = Some v"
  shows "min_version protocol v \<le> v"
    and "min_version protocol v \<le> w \<Longrightarrow> w \<le> v \<Longrightarrow> requested protocol w"
    and "version_rank (min_version protocol v) = Suc (version_rank w) \<Longrightarrow> \<not> requested protocol w"
  using assms
  by (cases v; cases w;
      auto simp: max_version_requested min_version_def Let_def requested_def version_order all_versions
        split: if_split_asm)+

definition version_calls :: "call list \<Rightarrow> call list" where
  "version_calls calls =
     filter (\<lambda>k. case k of CTX_set_max_proto_version _ \<Rightarrow> True | CTX_set_min_proto_version _ \<Rightarrow> True | _ \<Rightarrow> False) calls"

lemma version_calls_simps [simp]:
  "version_calls [] = []"
  "version_calls (k # ks) = (case k of CTX_set_max_proto_version _ \<Rightarrow> k # version_calls ks
     | CTX_set_min_proto_version _ \<Rightarrow> k # version_calls ks | _ \<Rightarrow> version_calls ks)"
  "version_calls (ks @ ls) = version_calls ks @ version_calls ls"
  by (auto simp: version_calls_def split: call.splits)

lemma make_version_calls:
  assumes "SSLContext_make env protocol mode = (Some c, calls)"
  obtains v where "max_version protocol = Some v"
    and "version_calls calls = [CTX_set_max_proto_version v, CTX_set_min_proto_version (min_version protocol v)]"
proof -
  have np: "protocol \<noteq> SSL_PROTOCOL_NONE"
    using assms by (cases "protocol = SSL_PROTOCOL_NONE") (simp_all add: SSLContext_make_def)
  obtain ctx where ctx: "m_ctx_new env (SSL_CTX_method mode) = Some ctx"
    using assms np by (cases "m_ctx_new env (SSL_CTX_method mode)") (simp_all add: SSLContext_make_def)
  have pc: "m_pcalloc env"
    using assms np ctx by (cases "m_pcalloc env") (simp_all add: SSLContext_make_def)
  obtain v where v: "max_version protocol = Some v"
    using assms np ctx pc by (cases "max_version protocol") (simp_all add: SSLContext_make_def Let_def)
  note e = ctx v pc
  have "version_calls calls = [CTX_set_max_proto_version v, CTX_set_min_proto_version (min_version protocol v)]"
    using assms [symmetric] np by (simp add: SSLContext_make_def e Let_def)
  then show ?thesis using e(2) that by blast
qed

text \<open>What \<open>make\<close> and \<open>setVerify\<close> leave in the context.\<close>

lemma make_verify_depth:
  assumes "SSLContext_make env protocol mode = (Some c, calls)"
  shows "c_verify_depth c = 1"
proof -
  obtain v where v: "max_version protocol = Some v" using make_version_calls [OF assms] .
  then have "protocol \<noteq> SSL_PROTOCOL_NONE"
    by (auto simp: max_version_def has_proto_def SSL_PROTOCOL_NONE_def)
  with v assms show ?thesis
    by (cases "m_ctx_new env (SSL_CTX_method mode)"; cases "m_pcalloc env")
      (auto simp: SSLContext_make_def Let_def)
qed

lemma setVerify_fields:
  assumes "setVerify store level depth c = (c', calls)"
  shows "c_verify_mode c' = (if level = SSL_CVERIFY_UNSET then SSL_CVERIFY_NONE else level)"
    and "c_verify_depth c' = (if 0 < depth then depth else c_verify_depth c)"
    and "c_no_ocsp_check c' = c_no_ocsp_check c" and "c_ocsp_soft_fail c' = c_ocsp_soft_fail c"
    and "c_ocsp_timeout c' = c_ocsp_timeout c" and "c_ocsp_verify_flags c' = c_ocsp_verify_flags c"
  using assms by (auto simp: setVerify_def set_verify_fields_def Let_def)

text \<open>The protocols that a client offers.\<close>

lemma setAlpnProtos_client:
  assumes "short_names cs" and "cs \<noteq> []" and "c_mode c = SSL_MODE_CLIENT"
  shows "\<exists>c'. setAlpnProtos True (\<lambda>_. True) (Some (map Some cs)) behaviour c
    = Inr (c', [CTX_set_alpn_protos (wire (nonempty_names cs))])"
proof -
  let ?slot = "\<lparr>slot_data = c_alpn_proto_data c, slot_len = c_alpn_proto_len c\<rparr>"
  obtain k where "initProtocols True (\<lambda>_. True) (Some (map Some cs)) ?slot =
    Inr (0, ?slot\<lparr>slot_data := Some (map Some (wire (nonempty_names cs)) @ replicate k None),
                slot_len := length (wire (nonempty_names cs))\<rparr>)"
    using initProtocols_short [OF assms(2,1)] by blast
  moreover have "rdn_cell (map Some w @ replicate k None) 0 (length w) = Inr w" for w :: "byte list"
    using rdn_cell_append [of w "length w" "[]" "replicate k None"] by simp
  ultimately show ?thesis
    using assms(3) by (simp add: setAlpnProtos_def Let_def)
qed

lemma setAlpnProtos_hello:
  assumes "short_names cs" and "cs \<noteq> []" and "c_mode c = SSL_MODE_CLIENT"
    and "setAlpnProtos True (\<lambda>_. True) (Some (map Some cs)) behaviour c = Inr (c', [CTX_set_alpn_protos hello])"
  shows "hello = wire (nonempty_names cs)"
  using setAlpnProtos_client [OF assms(1-3), of behaviour] assms(4) by auto

section \<open>Properties\<close>

text \<open>
  C12: a new context is limited to a range of protocol versions that ends at the newest
  version requested, that contains requested versions only, and that is the longest such
  range: versions below a hole in the request are never enabled.
\<close>

theorem make_protocol_range:
  assumes "SSLContext_make env protocol mode = (Some c, calls)"
  shows "\<exists>lo hi. version_calls calls = [CTX_set_max_proto_version hi, CTX_set_min_proto_version lo] \<and> lo \<le> hi \<and>
    (\<forall>v. requested protocol v \<longrightarrow> v \<le> hi) \<and> (\<forall>v. lo \<le> v \<and> v \<le> hi \<longrightarrow> requested protocol v) \<and>
    (\<forall>v. version_rank lo = Suc (version_rank v) \<longrightarrow> \<not> requested protocol v)"
proof -
  obtain v where v: "max_version protocol = Some v"
    "version_calls calls = [CTX_set_max_proto_version v, CTX_set_min_proto_version (min_version protocol v)]"
    using make_version_calls [OF assms] .
  have top: "\<forall>w. requested protocol w \<longrightarrow> w \<le> v"
    using v(1) unfolding max_version_requested by blast
  have all: "\<forall>w. min_version protocol v \<le> w \<and> w \<le> v \<longrightarrow> requested protocol w"
    using min_version_range(2) [OF v(1)] by blast
  have below: "\<forall>w. version_rank (min_version protocol v) = Suc (version_rank w) \<longrightarrow> \<not> requested protocol w"
    using min_version_range(3) [OF v(1)] by blast
  show ?thesis
    by (intro exI conjI) (rule v(2), rule min_version_range(1) [OF v(1)], rule top, rule all, rule below)
qed

theorem make_protocol_range_witness:
  "\<exists>c calls lo hi. SSLContext_make \<lparr>m_ctx_new = \<lambda>_. Some 1, m_pcalloc = True, m_bio_new = None,
      m_key_log_file = False, m_classes_cached = True, m_sha1 = id\<rparr> 0x2A 1 = (Some c, calls) \<and>
    version_calls calls = [CTX_set_max_proto_version hi, CTX_set_min_proto_version lo] \<and> lo \<le> hi \<and>
    requested 0x2A hi \<and> requested 0x2A lo"
proof -
  obtain c calls where m: "SSLContext_make \<lparr>m_ctx_new = \<lambda>_. Some 1, m_pcalloc = True, m_bio_new = None,
      m_key_log_file = False, m_classes_cached = True, m_sha1 = id\<rparr> 0x2A 1 = (Some c, calls)"
    by (simp add: SSLContext_make_def SSL_PROTOCOL_NONE_def max_version_def has_proto_def SSL_PROTOCOL_TLSV1_3_def Let_def)
  from make_protocol_range [OF m] m show ?thesis by (meson order_refl)
qed



text \<open>
  A cleaned-up context owns nothing more: a second cleanup makes no call and changes
  nothing, so that freeing a context and destroying its pool release every object once.
\<close>

theorem ssl_context_cleanup_idempotent:
  "snd (ssl_context_cleanup (fst (ssl_context_cleanup c))) = [] \<and>
   fst (ssl_context_cleanup (fst (ssl_context_cleanup c))) = fst (ssl_context_cleanup c)"
proof -
  have "free_pairs (replicate m None) (replicate n None) = []" for m n
    by (induction m arbitrary: n) (case_tac n; auto simp: free_opt_def)+
  then show ?thesis by (simp add: ssl_context_cleanup_def free_opt_def)
qed

lemma strlen_disabled: "strlen SSL_CIPHERS_ALWAYS_DISABLED = length SSL_CIPHERS_ALWAYS_DISABLED"
    "0 \<notin> set SSL_CIPHERS_ALWAYS_DISABLED"
  by (simp_all add: SSL_CIPHERS_ALWAYS_DISABLED_def strlen_def c_str_def)

lemma take_strlen: "take (strlen s) s = c_str s"
  by (simp add: strlen_def c_str_def takeWhile_eq_take [symmetric])

lemma cipher_buf_result: "cipher_buf s = Inr (map Some (SSL_CIPHERS_ALWAYS_DISABLED @ c_str s @ [0]))"
proof -
  let ?d = "SSL_CIPHERS_ALWAYS_DISABLED"
  have 1: "wrn_cell (malloc_block (strlen s + length ?d + 1)) 0 ?d = Inr (map Some ?d @ replicate (strlen s + 1) None)"
    using wrn_cell_append [of ?d "strlen s + length ?d + 1" "[]"] by (simp add: malloc_block_def)
  have 2: "wrn_cell (map Some ?d @ replicate (strlen s + 1) None) (length ?d) (c_str s)
      = Inr (map Some ?d @ map Some (c_str s) @ [None])"
    using wrn_cell_append [of "c_str s" "strlen s + 1" "map Some ?d"] by (simp add: strlen_def)
  have 3: "wrn_cell (map Some ?d @ map Some (c_str s) @ [None]) (strlen s + length ?d) [0]
      = Inr (map Some (?d @ c_str s @ [0]))"
    using wrn_cell_append [of "[0]" 1 "map Some ?d @ map Some (c_str s)"] by (simp add: strlen_def add.commute)
  show ?thesis
    using 1 2 3 by (simp add: cipher_buf_def strlen_disabled take_strlen Let_def)
qed

text \<open>What OpenSSL reads from the buffer.\<close>

lemma cipher_buf_read:
  "run_bind (cipher_buf s) (\<lambda>buf. run_bind (rdn_cell buf 0 (length buf)) k)
     = k (SSL_CIPHERS_ALWAYS_DISABLED @ c_str s @ [0])"
proof -
  let ?bs = "SSL_CIPHERS_ALWAYS_DISABLED @ c_str s @ [0]"
  have "rdn_cell (map Some ?bs) 0 (length (map Some ?bs)) = Inr ?bs"
    using rdn_cell_append [of ?bs "length ?bs" "[]" "[]"] by simp
  then show ?thesis
    by (simp add: cipher_buf_result del: map_append length_append)
qed

lemma c_str_cipher_buf: "c_str (SSL_CIPHERS_ALWAYS_DISABLED @ c_str s @ [0]) = SSL_CIPHERS_ALWAYS_DISABLED @ c_str s"
proof -
  have "0 \<notin> set (SSL_CIPHERS_ALWAYS_DISABLED @ c_str s)"
    using strlen_disabled(2) by simp
  then show ?thesis
    unfolding c_str_def by (subst append_assoc [symmetric], subst takeWhile_append2) auto
qed

text \<open>
  The list that reaches OpenSSL is always the configured one behind the prefix that
  disables NULL, anonymous and export ciphers, and building it stays within the buffer. The
  result is OpenSSL's verdict on that list, with an exception when it is negative.
\<close>

theorem setCipherSuite_prefix:
  "setCipherSuite True accepts (Some s) (Some c) =
    Inr (accepts (SSL_CIPHERS_ALWAYS_DISABLED @ c_str s),
         CTX_set_cipher_list (SSL_CIPHERS_ALWAYS_DISABLED @ c_str s) #
         (if accepts (SSL_CIPHERS_ALWAYS_DISABLED @ c_str s) then []
          else [Throw ''Unable to configure permitted SSL ciphers'']))"
  by (simp add: setCipherSuite_def cipher_buf_read c_str_cipher_buf)

text \<open>
  Certificate revocation lists are checked exactly when \<open>setCARevocation\<close> reports
  success; when it reports failure the context forgets its store, or was given neither a file
  nor a directory.
\<close>

theorem setCARevocation_all_or_nothing:
  assumes "setCARevocation env file path c = (rv, c', calls)"
  shows "(rv \<longleftrightarrow> STORE_set_crl_flags \<in> set calls) \<and>
    (\<not> rv \<longrightarrow> c_crl c' = None \<or> file = None \<and> path = None \<and> c' = c \<and> calls = [])"
  using assms
  by (auto simp: setCARevocation_def Let_def split: if_split_asm option.split_asm prod.split_asm)

theorem setCARevocation_all_or_nothing_witness:
  "\<exists>rv c' calls. setCARevocation \<lparr>r_cert_store = Some 5, r_add_file_lookup = True,
        r_load_file = \<lambda>_. True, r_add_dir_lookup = False, r_add_dir = \<lambda>_. False\<rparr>
        (Some [1]) (Some [2]) zero_ctxt = (rv, c', calls) \<and>
    (rv \<longleftrightarrow> STORE_set_crl_flags \<in> set calls)"
proof -
  obtain rv c' calls where r: "setCARevocation \<lparr>r_cert_store = Some 5, r_add_file_lookup = True,
        r_load_file = \<lambda>_. True, r_add_dir_lookup = False, r_add_dir = \<lambda>_. False\<rparr>
        (Some [1]) (Some [2]) zero_ctxt = (rv, c', calls)"
    by (rule prod_cases3)
  with setCARevocation_all_or_nothing [OF r] show ?thesis by blast
qed

end
