(* ===== verification/Ocsp_Http.thy ===== *)
theory Ocsp_Http
  imports C_Model
begin

text \<open>
  The HTTP exchange with an OCSP responder in \<^verbatim>\<open>native/src/sslutils.c\<close>:
  \<open>make_socket\<close>, \<open>serialize_request\<close>, \<open>ocsp_send_req\<close>, \<open>parse_ocsp_resp\<close>,
  \<open>ocsp_get_resp\<close> and \<open>get_ocsp_response\<close>.

  The peer is a parameter: the answers of \<open>apr_socket_send\<close> and \<open>apr_socket_recv\<close>, in
  order. So is OpenSSL's \<open>d2i_OCSP_RESPONSE_bio\<close>, a function of the bytes left in the
  memory BIO. A buffer that holds a C string is the string with its NUL; reading behind the
  NUL is a fault.
\<close>

section \<open>Characters and scanning\<close>

definition isspace :: "byte \<Rightarrow> bool" where
  "isspace b \<longleftrightarrow> b = 32 \<or> 9 \<le> b \<and> b \<le> 13"

definition isdigit :: "byte \<Rightarrow> bool" where
  "isdigit b \<longleftrightarrow> 48 \<le> b \<and> b \<le> 57"

lemma not_isspace_0 [simp]: "\<not> isspace 0"
  by (simp add: isspace_def)

text \<open>The characters of a literal.\<close>

definition ascii :: "string \<Rightarrow> byte list" where
  "ascii s = map of_char s"

text \<open>\<open>while (P(*p)) p++;\<close>\<close>

function scan :: "(byte \<Rightarrow> bool) \<Rightarrow> byte list \<Rightarrow> nat \<Rightarrow> nat run" where
  "scan P m i = run_bind (rd m i) (\<lambda>b. if P b then scan P m (Suc i) else Inr i)"
  by pat_completeness auto
termination
  by (relation "measure (\<lambda>(_, m, i). length m - i)") (auto simp: rd_Inr_iff)

declare scan.simps [simp del]

lemma scan_append:
  assumes "\<forall>b \<in> set xs. P b" and "\<not> P c"
  shows "scan P (pre @ xs @ c # post) (length pre) = Inr (length pre + length xs)"
  using assms(1)
proof (induction xs arbitrary: pre)
  case Nil
  then show ?case using assms(2) by (subst scan.simps) (simp add: rd_append)
next
  case (Cons x xs)
  then show ?case
    using Cons.IH [of "pre @ [x]"] by (subst scan.simps) (simp add: rd_append)
qed

text \<open>A scan that the terminating NUL stops.\<close>

lemma scan_stops:
  assumes "i \<le> length s" and "\<not> P 0"
  obtains j where "scan P (s @ [0]) i = Inr j" and "i \<le> j" and "j \<le> length s"
    and "\<not> P ((s @ [0]) ! j)" and "\<forall>k. i \<le> k \<and> k < j \<longrightarrow> P ((s @ [0]) ! k)"
proof -
  have "\<exists>j. scan P (s @ [0]) i = Inr j \<and> i \<le> j \<and> j \<le> length s \<and> \<not> P ((s @ [0]) ! j)
      \<and> (\<forall>k. i \<le> k \<and> k < j \<longrightarrow> P ((s @ [0]) ! k))"
    using assms(1)
  proof (induction rule: inc_induct)
    case base
    then show ?case using assms(2) by (subst scan.simps) (auto simp: rd_def)
  next
    case (step n)
    then obtain j where j: "scan P (s @ [0]) (Suc n) = Inr j" "Suc n \<le> j" "j \<le> length s"
      "\<not> P ((s @ [0]) ! j)" "\<forall>k. Suc n \<le> k \<and> k < j \<longrightarrow> P ((s @ [0]) ! k)"
      by blast
    show ?case
    proof (cases "P ((s @ [0]) ! n)")
      case True
      then have "scan P (s @ [0]) n = Inr j"
        using j(1) step.hyps by (subst scan.simps) (simp add: rd_def)
      moreover have "\<forall>k. n \<le> k \<and> k < j \<longrightarrow> P ((s @ [0]) ! k)"
        using j(5) True by (metis Suc_leI le_neq_implies_less)
      ultimately show ?thesis using j by auto
    next
      case False
      then have "scan P (s @ [0]) n = Inr n"
        using step.hyps by (subst scan.simps) (simp add: rd_def)
      then show ?thesis using False step.hyps by (intro exI [of _ n]) auto
    qed
  qed
  then show ?thesis using that by blast
qed

section \<open>The standard library\<close>

text \<open>
  \<open>BIO_gets\<close> with a buffer of \<open>n + 1\<close> bytes: the line, its newline included, and what
  is left. The line is empty only when the BIO is.
\<close>

fun BIO_gets :: "nat \<Rightarrow> byte list \<Rightarrow> byte list \<times> byte list" where
  "BIO_gets 0 bs = ([], bs)"
| "BIO_gets (Suc n) [] = ([], [])"
| "BIO_gets (Suc n) (b # bs) =
     (if b = 10 then ([b], bs) else (let (l, r) = BIO_gets n bs in (b # l, r)))"

lemma BIO_gets_append: "BIO_gets n bs = (l, r) \<Longrightarrow> l @ r = bs \<and> length l \<le> n"
  by (induction n bs arbitrary: l r rule: BIO_gets.induct) (auto split: prod.splits if_splits)

lemma BIO_gets_shorter: "BIO_gets n bs = (l, r) \<Longrightarrow> l \<noteq> [] \<Longrightarrow> length r < length bs"
  using BIO_gets_append [of n bs l r] by (metis add_less_cancel_right add_0 length_append length_greater_0_conv)

lemma BIO_gets_Nil_iff: "0 < n \<Longrightarrow> fst (BIO_gets n bs) = [] \<longleftrightarrow> bs = []"
  by (cases n; cases bs) (auto split: prod.splits)

lemma BIO_gets_line:
  "10 \<notin> set l \<Longrightarrow> length l < n \<Longrightarrow> BIO_gets n (l @ 10 # rest) = (l @ [10], rest)"
proof (induction l arbitrary: n)
  case Nil
  then show ?case by (cases n) auto
next
  case (Cons b l)
  then show ?case by (cases n) auto
qed

text \<open>
  \<open>strtoul\<close> to base 10 with 64-bit \<open>unsigned long\<close>: the value and the number of
  characters consumed, 0 when there are no digits.
\<close>

definition digits_value :: "byte list \<Rightarrow> nat" where
  "digits_value ds = foldl (\<lambda>v d. v * 10 + (unat d - 48)) 0 ds"

definition sign_len :: "byte list \<Rightarrow> nat" where
  "sign_len s = (if s \<noteq> [] \<and> (hd s = 43 \<or> hd s = 45) then 1 else 0)"

definition strtoul :: "byte list \<Rightarrow> nat \<times> nat" where
  "strtoul s =
     (let ws = takeWhile isspace s;
          s1 = drop (length ws) s;
          neg = (s1 \<noteq> [] \<and> hd s1 = 45);
          sgn = sign_len s1;
          ds = takeWhile isdigit (drop sgn s1);
          v = digits_value ds
      in if ds = [] then (0, 0)
         else (if 2 ^ 64 \<le> v then 2 ^ 64 - 1
               else if neg then (2 ^ 64 - v) mod 2 ^ 64 else v,
               length ws + sgn + length ds))"

text \<open>The conversion of \<open>unsigned long\<close> to \<open>int\<close>.\<close>

definition int_of_ulong :: "nat \<Rightarrow> int" where
  "int_of_ulong v = sint (word_of_nat v :: 32 word)"

section \<open>The response\<close>

text \<open>\<open>for (r = ...; apr_isspace(*r); r--) *r = 0;\<close> where going below the buffer is a fault.\<close>

primrec zap_trailing :: "byte list \<Rightarrow> nat \<Rightarrow> byte list run" where
  "zap_trailing m 0 = run_bind (rd m 0) (\<lambda>b. if isspace b then Inl Out_Of_Bounds else Inr m)"
| "zap_trailing m (Suc r) =
     run_bind (rd m (Suc r)) (\<lambda>b. if isspace b then zap_trailing (m[Suc r := 0]) r else Inr m)"

definition in_word :: "byte \<Rightarrow> bool" where
  "in_word b \<longleftrightarrow> b \<noteq> 0 \<and> \<not> isspace b"

text \<open>
  The status line: the code, the position of \<open>p\<close> and the buffer, or \<open>None\<close> for
  \<open>goto err\<close>.
\<close>

definition parse_status :: "byte list \<Rightarrow> (int \<times> nat \<times> byte list) option run" where
  "parse_status tmpbuf =
     run_bind (scan in_word tmpbuf 0) (\<lambda>p0.
     run_bind (rd tmpbuf p0) (\<lambda>b. if b = 0 then Inr None else
     run_bind (scan isspace tmpbuf p0) (\<lambda>p.
     run_bind (rd tmpbuf p) (\<lambda>b. if b = 0 then Inr None else
     run_bind (scan in_word tmpbuf p) (\<lambda>q0.
     run_bind (rd tmpbuf q0) (\<lambda>b. if b = 0 then Inr None else
     (let tmpbuf = tmpbuf[q0 := 0];
          (retcode, n) = strtoul (c_str (drop p tmpbuf)) in
     run_bind (rd tmpbuf (p + n)) (\<lambda>b. if b \<noteq> 0 then Inr None else
     run_bind (scan isspace tmpbuf (Suc q0)) (\<lambda>q.
     run_bind (rd tmpbuf q) (\<lambda>b.
     run_bind (if b \<noteq> 0 then zap_trailing tmpbuf (q + strlen (drop q tmpbuf) - 1) else Inr tmpbuf)
       (\<lambda>tmpbuf. Inr (Some (int_of_ulong retcode, p, tmpbuf)))))))))))))"

text \<open>
  The loop that looks for the blank line: the byte at \<open>p\<close> afterwards and what is left in
  the BIO. At the end of the BIO \<open>BIO_gets\<close> may or may not empty the buffer
  (\<open>eof_clears\<close>), and \<open>p\<close> points into what it holds.
\<close>

function skip_headers :: "bool \<Rightarrow> byte list \<Rightarrow> nat \<Rightarrow> byte list \<Rightarrow> (byte \<times> byte list) run" where
  "skip_headers eof_clears tmpbuf p mem =
     (let (line, rest) = BIO_gets 511 mem in
      if line = [] then
        run_bind (rd (if eof_clears then tmpbuf[0 := 0] else tmpbuf) p) (\<lambda>b. Inr (b, rest))
      else
        run_bind (scan isspace (line @ [0]) 0) (\<lambda>p.
        run_bind (rd (line @ [0]) p) (\<lambda>b.
        if b = 0 then Inr (b, rest) else skip_headers eof_clears (line @ [0]) p rest)))"
  by pat_completeness auto
termination
  by (relation "measure (\<lambda>(_, _, _, mem). length mem)")
    (auto dest: BIO_gets_shorter [OF sym])

declare skip_headers.simps [simp del]

definition parse_ocsp_resp :: "bool \<Rightarrow> bool \<Rightarrow> (byte list \<Rightarrow> 'r option) \<Rightarrow> byte list \<Rightarrow> 'r option run" where
  "parse_ocsp_resp bio_ok eof_clears d2i buf =
     (if \<not> bio_ok then Inr None
      else
        (let (line, mem) = BIO_gets 511 buf in
         if line = [] then Inr None
         else run_bind (parse_status (line @ [0])) (\<lambda>st.
           case st of
             None \<Rightarrow> Inr None
           | Some (retcode, p, tmpbuf) \<Rightarrow>
               if retcode \<noteq> 200 then Inr None
               else run_bind (skip_headers eof_clears tmpbuf p mem) (\<lambda>(b, rest).
                 if b \<noteq> 0 then Inr None else Inr (d2i rest)))))"

subsection \<open>No access leaves the buffer\<close>

lemma rd_in: "i < length m \<Longrightarrow> rd m i = Inr (m ! i)"
  by (simp add: rd_def)

lemma ensures_scan:
  "i \<le> length s \<Longrightarrow> \<not> P 0 \<Longrightarrow>
   ensures (scan P (s @ [0]) i)
     (\<lambda>j. i \<le> j \<and> j \<le> length s \<and> \<not> P ((s @ [0]) ! j) \<and> (\<forall>k. i \<le> k \<and> k < j \<longrightarrow> P ((s @ [0]) ! k)))"
  by (rule scan_stops [of i s P]) (auto simp: ensures_def)

lemma ensures_zap:
  "k \<le> r \<Longrightarrow> r < length m \<Longrightarrow> \<not> isspace (m ! k) \<Longrightarrow>
   ensures (zap_trailing m r) (\<lambda>m'. length m' = length m)"
proof (induction r arbitrary: m)
  case (Suc r)
  show ?case
  proof (cases "isspace (m ! Suc r)")
    case True
    then have "k \<le> r" using Suc.prems by (metis le_SucE)
    then show ?thesis
      using Suc.prems Suc.IH [of "m[Suc r := 0]"] True by simp
  qed (use Suc.prems in simp)
qed simp

lemma strlen_pos: "m \<noteq> [] \<Longrightarrow> hd m \<noteq> 0 \<Longrightarrow> 0 < strlen m"
  by (cases m) (auto simp: strlen_def c_str_def)

lemma strlen_le: "strlen m \<le> length m"
  by (simp add: strlen_def length_c_str_le)

lemma strtoul_consumed: "snd (strtoul s) \<le> length s"
proof -
  obtain n where n: "n = length (takeWhile isspace s)" by blast
  obtain t where t: "t = drop n s" by blast
  have "sign_len t \<le> length t" by (simp add: sign_len_def Suc_le_eq)
  then have "sign_len t + length (takeWhile isdigit (drop (sign_len t) t)) \<le> length t"
    using length_takeWhile_le [of isdigit "drop (sign_len t) t"] by simp
  moreover have "n + length t = length s"
    using length_takeWhile_le [of isspace s] by (simp add: n t)
  ultimately show ?thesis
    unfolding strtoul_def Let_def n [symmetric] t [symmetric] by simp
qed

lemma strlen_drop:
  assumes "q < length m" and "m ! q \<noteq> 0"
  shows "q \<le> q + strlen (drop q m) - 1" and "q + strlen (drop q m) - 1 < length m"
proof -
  have "0 < strlen (drop q m)" and "strlen (drop q m) \<le> length m - q"
    using assms strlen_pos [of "drop q m"] strlen_le [of "drop q m"] by (auto simp: hd_drop_conv_nth)
  then show "q \<le> q + strlen (drop q m) - 1" and "q + strlen (drop q m) - 1 < length m"
    using assms(1) by linarith+
qed

lemma list_update_terminated: "q < length s \<Longrightarrow> (s @ [0])[q := x] = s[q := x] @ [0]"
  by (simp add: list_update_append)

text \<open>From the end of the response code on.\<close>

lemma parse_status_tail:
  assumes "p \<le> q" and "q < length s"
  shows "ensures (let tmpbuf = (s @ [0])[q := 0];
          (retcode, n) = strtoul (c_str (drop p tmpbuf)) in
     run_bind (rd tmpbuf (p + n)) (\<lambda>b. if b \<noteq> 0 then Inr None else
     run_bind (scan isspace tmpbuf (Suc q)) (\<lambda>q.
     run_bind (rd tmpbuf q) (\<lambda>b.
     run_bind (if b \<noteq> 0 then zap_trailing tmpbuf (q + strlen (drop q tmpbuf) - 1) else Inr tmpbuf)
       (\<lambda>tmpbuf. Inr (Some (int_of_ulong retcode, p, tmpbuf)))))))
    (\<lambda>r. case r of None \<Rightarrow> True | Some (rc, p', t) \<Rightarrow> p' < length t)"
proof -
  let ?t = "s[q := 0] @ [0]"
  obtain v n where st: "strtoul (c_str (drop p ?t)) = (v, n)" by fastforce
  have "n \<le> length (c_str (drop p ?t))"
    using strtoul_consumed [of "c_str (drop p ?t)"] st by simp
  also have "\<dots> \<le> q - p"
    using assms by (intro length_c_str_nul) (auto simp: nth_append)
  finally have n: "p + n < length ?t" using assms by auto
  have "ensures (scan isspace ?t (Suc q)) (\<lambda>j. Suc q \<le> j \<and> j < length ?t \<and> \<not> isspace (?t ! j))"
    using ensures_scan [of "Suc q" "s[q := 0]" isspace] assms by (auto elim: ensures_mono)
  moreover have "ensures (zap_trailing ?t (j + strlen (drop j ?t) - 1)) (\<lambda>m. p < length m)"
    if "j < length ?t" "\<not> isspace (?t ! j)" "?t ! j \<noteq> 0" for j
    using ensures_zap [OF strlen_drop [OF that(1,3)] that(2)] assms by (rule_tac ensures_mono) auto
  ultimately show ?thesis
    unfolding list_update_terminated [OF assms(2)] Let_def st prod.case
    using n assms by (auto elim!: ensures_mono simp del: drop_append)
qed


lemma terminated_nz: "i \<le> length s \<Longrightarrow> (s @ [0]) ! i \<noteq> 0 \<Longrightarrow> i < length (s :: byte list)"
  by (metis le_neq_implies_less nth_append_length)

text \<open>A scan, and the test for the NUL behind it, as steps of a safety proof.\<close>

lemma scan_then:
  assumes "i \<le> length s" and "\<not> P 0"
    and "\<And>j. i \<le> j \<Longrightarrow> j \<le> length s \<Longrightarrow> ensures (k j) Q"
  shows "ensures (run_bind (scan P (s @ [0]) i) k) Q"
proof -
  obtain j where "scan P (s @ [0]) i = Inr j" "i \<le> j" "j \<le> length s"
    by (rule scan_stops [OF assms(1), of P]) (use assms(2) in auto)
  then show ?thesis using assms(3) by simp
qed

lemma nul_test_then:
  assumes "i \<le> length s" and "Q None" and "i < length s \<Longrightarrow> ensures r Q"
  shows "ensures (run_bind (rd (s @ [0]) i) (\<lambda>b. if b = 0 then Inr None else r)) Q"
  using assms terminated_nz [OF assms(1)] by simp

lemma parse_status_safe:
  "ensures (parse_status (s @ [0])) (\<lambda>r. case r of None \<Rightarrow> True | Some (rc, p, t) \<Rightarrow> p < length t)"
proof -
  have w: "\<not> in_word 0" by (simp add: in_word_def)
  show ?thesis
    unfolding parse_status_def
    by (intro scan_then nul_test_then parse_status_tail w not_isspace_0; simp)
qed

lemma skip_headers_safe:
  "p < length t \<Longrightarrow> safe (skip_headers eof t p mem)"
proof (induction eof t p mem rule: skip_headers.induct)
  case (1 eof t p mem)
  obtain line rest where g: "BIO_gets 511 mem = (line, rest)" by fastforce
  show ?case
  proof (cases "line = []")
    case True
    then show ?thesis
      using g "1.prems" by (subst skip_headers.simps) (simp add: safe_ensures)
  next
    case False
    have "ensures (scan isspace (line @ [0]) 0) (\<lambda>j. j < length (line @ [0]))"
      using ensures_scan [of 0 line isspace] by (auto elim: ensures_mono)
    then have "ensures (scan isspace (line @ [0]) 0) (\<lambda>j. j < length (line @ [0]) \<and>
        ((line @ [0]) ! j \<noteq> 0 \<longrightarrow> safe (skip_headers eof (line @ [0]) j rest)))"
      by (rule ensures_mono) (use "1.IH" [OF g [symmetric] refl False] in \<open>auto simp: rd_in\<close>)
    then show ?thesis
      using g False unfolding safe_ensures
      by (subst skip_headers.simps) (auto elim!: ensures_mono)
  qed
qed

lemma parse_ocsp_resp_no_fault: "safe (parse_ocsp_resp bio_ok eof d2i buf)"
proof -
  obtain line mem where g: "BIO_gets 511 buf = (line, mem)" by fastforce
  have "safe (case st of None \<Rightarrow> Inr None
      | Some (retcode, p, tmpbuf) \<Rightarrow>
          if retcode \<noteq> 200 then Inr None
          else run_bind (skip_headers eof tmpbuf p mem) (\<lambda>(b, rest).
            if b \<noteq> 0 then Inr None else Inr (d2i rest)))"
    if "case st of None \<Rightarrow> True | Some (rc, p, t) \<Rightarrow> p < length t" for st :: "(int \<times> nat \<times> byte list) option"
    using that by (auto split: option.splits prod.splits intro!: safe_bindI skip_headers_safe)
  then show ?thesis
    using g parse_status_safe [of line]
    by (auto simp: parse_ocsp_resp_def ensures_def)
qed

subsection \<open>A well-formed response\<close>

record http_response =
  hr_proto :: "byte list"
  hr_code :: "byte list"
  hr_reason :: "byte list"
  hr_headers :: "byte list list"
  hr_body :: "byte list"

definition crlf :: "byte list" where "crlf = [13, 10]"

definition status_line :: "http_response \<Rightarrow> byte list" where
  "status_line h = hr_proto h @ [32] @ hr_code h @ [32] @ hr_reason h @ crlf"

definition http_bytes :: "http_response \<Rightarrow> byte list" where
  "http_bytes h = status_line h @ concat (map (\<lambda>l. l @ crlf) (hr_headers h)) @ crlf @ hr_body h"

definition header_ok :: "byte list \<Rightarrow> bool" where
  "header_ok l \<longleftrightarrow> l \<noteq> [] \<and> in_word (hd l) \<and> 10 \<notin> set l \<and> length l < 510"

definition http_ok :: "http_response \<Rightarrow> bool" where
  "http_ok h \<longleftrightarrow> (\<forall>b \<in> set (hr_proto h). in_word b) \<and> hr_code h \<noteq> [] \<and> (\<forall>b \<in> set (hr_code h). isdigit b)
     \<and> 10 \<notin> set (hr_reason h) \<and> length (status_line h) < 512 \<and> (\<forall>l \<in> set (hr_headers h). header_ok l)"

lemma isdigit_in_word: "isdigit b \<Longrightarrow> in_word b"
  unfolding isdigit_def in_word_def isspace_def by (auto simp: word_le_nat_alt)

lemma in_wordD: "in_word b \<Longrightarrow> b \<noteq> 0 \<and> b \<noteq> 10 \<and> \<not> isspace b"
  by (auto simp: in_word_def isspace_def)

lemma strtoul_digits:
  assumes "ds \<noteq> []" and "\<forall>b \<in> set ds. isdigit b" and "digits_value ds < 2 ^ 64"
  shows "strtoul ds = (digits_value ds, length ds)"
proof -
  have "takeWhile isspace ds = []" and "takeWhile isdigit ds = ds"
    using assms(1,2) isdigit_in_word in_wordD by (cases ds; auto)+
  moreover have "isdigit (hd ds)" using assms(1,2) by simp
  then have "hd ds \<noteq> 43 \<and> hd ds \<noteq> 45" by (auto simp: isdigit_def)
  ultimately show ?thesis
    using assms(1,3) by (simp add: strtoul_def Let_def sign_len_def del: takeWhile_eq_all_conv)
qed

lemma parse_status_http:
  assumes "\<forall>b \<in> set proto. in_word b" and "code \<noteq> []" and "\<forall>b \<in> set code. isdigit b"
    and "digits_value code < 2 ^ 64"
  obtains t where "parse_status ((proto @ [32] @ code @ [32] @ rest) @ [0])
      = Inr (Some (int_of_ulong (digits_value code), length proto + 1, t))"
    and "length proto + 1 < length t"
proof -
  let ?p = "length proto + 1" and ?q = "length proto + 1 + length code"
  let ?s = "proto @ [32] @ code @ [32] @ rest"
  let ?s' = "proto @ [32] @ code @ [0] @ rest"
  have code: "\<forall>b \<in> set code. in_word b"
    using assms(3) isdigit_in_word by blast
  have sp: "\<not> in_word 32" "isspace 32" by (simp_all add: in_word_def isspace_def)
  have 1: "scan in_word (?s @ [0]) 0 = Inr (length proto)"
    using scan_append [OF assms(1) sp(1), of "[]"] by simp
  have 2: "scan isspace (?s @ [0]) (length proto) = Inr ?p"
    using scan_append [of "[32]" isspace "hd code" proto "tl code @ [32] @ rest @ [0]"] sp code assms(2) in_wordD
    by (cases code) auto
  have 3: "scan in_word (?s @ [0]) ?p = Inr ?q"
    using scan_append [OF code sp(1), of "proto @ [32]"] by simp
  have r: "rd (?s @ [0]) (length proto) = Inr 32" "rd (?s @ [0]) ?p = Inr (hd code)" "rd (?s @ [0]) ?q = Inr 32"
    using rd_append(1) [of proto 32 "code @ [32] @ rest @ [0]"]
      rd_append(1) [of "proto @ [32]" "hd code" "tl code @ [32] @ rest @ [0]"]
      rd_append(1) [of "proto @ [32] @ code" 32 "rest @ [0]"] assms(2) by (cases code; simp)+
  have hd: "hd code \<noteq> 0" "0 \<notin> set code" using code assms(2) in_wordD by auto
  have upd: "(?s @ [0])[?q := 0] = ?s' @ [0]"
    using list_update_length [of "proto @ [32] @ code" 32 "rest @ [0]" 0] by simp
  have str: "strtoul (c_str (drop ?p (?s' @ [0]))) = (digits_value code, length code)"
    using c_str_append_nul [OF hd(2), of "rest @ [0]"] strtoul_digits [OF assms(2-4)] by simp
  have 4: "rd (?s' @ [0]) (?p + length code) = Inr 0"
    using rd_append(1) [of "proto @ [32] @ code" 0 "rest @ [0]"] by simp
  have tail: "ensures (parse_status (?s @ [0])) (\<lambda>r. case r of None \<Rightarrow> False
      | Some (rc, p, t) \<Rightarrow> rc = int_of_ulong (digits_value code) \<and> p = ?p \<and> p < length t)"
    using parse_status_tail [of ?p ?q ?s]
    by (simp only: parse_status_def 1 2 3 r run_bind.simps hd upd str 4 prod.case Let_def)
      (auto elim!: ensures_mono)
  then show ?thesis using that by (auto simp: ensures_def split: option.splits)
qed

lemma BIO_gets_crlf:
  "10 \<notin> set l \<Longrightarrow> length l < 510 \<Longrightarrow> BIO_gets 511 (l @ crlf @ rest) = (l @ crlf, rest)"
  using BIO_gets_line [of "l @ [13]" 511 rest] by (simp add: crlf_def)

lemma skip_headers_http:
  assumes "\<forall>l \<in> set hs. header_ok l"
  shows "skip_headers eof t p (concat (map (\<lambda>l. l @ crlf) hs) @ crlf @ body) = Inr (0, body)"
  using assms
proof (induction hs arbitrary: t p)
  case Nil
  have "scan isspace (crlf @ [0]) 0 = Inr 2"
    using scan_append [of crlf isspace 0 "[]" "[]"] by (simp add: crlf_def isspace_def)
  then show ?case
    using BIO_gets_crlf [of "[]" body]
    by (subst skip_headers.simps) (simp add: crlf_def rd_def)
next
  case (Cons l hs)
  let ?rest = "concat (map (\<lambda>l. l @ crlf) hs) @ crlf @ body"
  have l: "l \<noteq> []" "in_word (hd l)" "10 \<notin> set l" "length l < 510"
    using Cons.prems by (simp_all add: header_ok_def)
  have g: "BIO_gets 511 (l @ crlf @ ?rest) = (l @ crlf, ?rest)"
    using BIO_gets_crlf [OF l(3,4)] .
  have r: "rd ((l @ crlf) @ [0]) 0 = Inr (hd l)"
    using l(1) by (cases l) (simp_all add: rd_def)
  then have 1: "scan isspace ((l @ crlf) @ [0]) 0 = Inr 0"
    using in_wordD [OF l(2)] by (subst scan.simps) simp
  show ?case
    using Cons.IH [of "(l @ crlf) @ [0]" 0] Cons.prems l(1) in_wordD [OF l(2)]
    by (subst skip_headers.simps) (simp add: g [simplified] 1 [simplified] r [simplified])
qed

lemma parse_ocsp_resp_http_bytes:
  assumes "http_ok h" and "digits_value (hr_code h) < 2 ^ 64"
  shows "parse_ocsp_resp True eof d2i (http_bytes h) =
    Inr (if int_of_ulong (digits_value (hr_code h)) = 200 then d2i (hr_body h) else None)"
proof -
  let ?l = "hr_proto h @ [32] @ hr_code h @ [32] @ hr_reason h"
  let ?mem = "concat (map (\<lambda>l. l @ crlf) (hr_headers h)) @ crlf @ hr_body h"
  have sl: "status_line h = ?l @ crlf" by (simp add: status_line_def)
  have "10 \<notin> set ?l"
    using assms(1) isdigit_in_word in_wordD by (auto simp: http_ok_def)
  moreover have "length ?l < 510" using assms(1) sl by (simp add: http_ok_def crlf_def)
  ultimately have g: "BIO_gets 511 (http_bytes h) = (?l @ crlf, ?mem)"
    using BIO_gets_crlf [of ?l ?mem] by (simp add: http_bytes_def sl)
  obtain t where t: "parse_status ((?l @ crlf) @ [0])
      = Inr (Some (int_of_ulong (digits_value (hr_code h)), length (hr_proto h) + 1, t))"
    by (rule parse_status_http [of "hr_proto h" "hr_code h" "hr_reason h @ crlf"])
      (use assms in \<open>simp_all add: http_ok_def\<close>)
  have h: "skip_headers eof t p ?mem = Inr (0, hr_body h)" for p
    using assms(1) by (intro skip_headers_http) (simp add: http_ok_def)
  show ?thesis
    unfolding parse_ocsp_resp_def g prod.case Let_def t run_bind.simps option.case h by simp
qed

lemma int_of_ulong_eq_200: "int_of_ulong v = 200 \<longleftrightarrow> v mod 2 ^ 32 = 200"
proof -
  have "int_of_ulong v = 200 \<longleftrightarrow> sint (word_of_nat v :: 32 word) = sint (200 :: 32 word)"
    by (simp add: int_of_ulong_def)
  also have "\<dots> \<longleftrightarrow> (word_of_nat v :: 32 word) = word_of_nat 200"
    unfolding of_nat_numeral by (auto intro: signed_word_eqI)
  also have "\<dots> \<longleftrightarrow> v mod 2 ^ 32 = 200"
    by (simp only: word_of_nat_eq_iff) (simp add: take_bit_eq_mod)
  finally show ?thesis .
qed

section \<open>Reading the response\<close>

text \<open>
  An answer of \<open>apr_socket_recv\<close>: data with \<open>APR_SUCCESS\<close>, or \<open>APR_EOF\<close> or another
  status, both with the number of bytes it reports. A peer that has no further answer runs
  into the timeout, an error with no bytes.
\<close>

datatype recv_answer = Received "byte list" | Recv_Eof nat | Recv_Failed nat

definition BUFFER_SIZE :: nat where "BUFFER_SIZE = 512"
definition OCSP_MAX_RESPONSE_SIZE :: nat where "OCSP_MAX_RESPONSE_SIZE = 65536"

text \<open>The loop: the buffer and the number of bytes in it, or \<open>None\<close> for \<open>return NULL\<close>.\<close>

fun recv_loop ::
  "(nat \<Rightarrow> bool) \<Rightarrow> block \<Rightarrow> nat \<Rightarrow> nat \<Rightarrow> recv_answer list \<Rightarrow> (block \<times> nat) option run" where
  "recv_loop palloc_ok buf buflen totalread [] = Inr None"
| "recv_loop palloc_ok buf buflen totalread (Received tmpbuf # as) =
     (let readlen = length tmpbuf in
      if totalread + readlen > OCSP_MAX_RESPONSE_SIZE then Inr None
      else if totalread + readlen \<ge> buflen then
        (if \<not> palloc_ok (buflen * 2) then Inr None
         else run_bind (wrn_cell (realloc_block buf (buflen * 2)) totalread tmpbuf) (\<lambda>buf.
              recv_loop palloc_ok buf (buflen * 2) (totalread + readlen) as))
      else run_bind (wrn_cell buf totalread tmpbuf) (\<lambda>buf.
           recv_loop palloc_ok buf buflen (totalread + readlen) as))"
| "recv_loop palloc_ok buf buflen totalread (Recv_Eof readlen # as) = Inr (Some (buf, totalread))"
| "recv_loop palloc_ok buf buflen totalread (Recv_Failed readlen # as) =
     (if readlen = 0 then Inr None else Inr (Some (buf, totalread)))"

definition ocsp_get_resp ::
  "(nat \<Rightarrow> bool) \<Rightarrow> (byte list \<Rightarrow> 'r option run) \<Rightarrow> recv_answer list \<Rightarrow> 'r option run" where
  "ocsp_get_resp palloc_ok parse answers =
     (if \<not> palloc_ok BUFFER_SIZE then Inr None
      else run_bind (recv_loop palloc_ok (malloc_block BUFFER_SIZE) BUFFER_SIZE 0 answers) (\<lambda>r.
        case r of
          None \<Rightarrow> Inr None
        | Some (buf, totalread) \<Rightarrow> run_bind (rdn_cell buf 0 totalread) parse))"

text \<open>\<open>apr_socket_recv\<close> never returns more than the 512 bytes it was asked for.\<close>

definition recv_ok :: "recv_answer \<Rightarrow> bool" where
  "recv_ok a \<longleftrightarrow> (case a of Received d \<Rightarrow> length d \<le> BUFFER_SIZE | _ \<Rightarrow> True)"

text \<open>What the peer sends until its end-of-file or failure, as an abstract reader.\<close>

fun received :: "recv_answer list \<Rightarrow> byte list option" where
  "received [] = None"
| "received (Received d # as) = map_option (append d) (received as)"
| "received (Recv_Eof n # as) = Some []"
| "received (Recv_Failed n # as) = (if n = 0 then None else Some [])"

definition buf_of :: "byte list \<Rightarrow> nat \<Rightarrow> block" where
  "buf_of data n = map Some data @ replicate (n - length data) None"

lemma buf_of_write:
  assumes "length data + length d \<le> n"
  shows "wrn_cell (buf_of data n) (length data) d = Inr (buf_of (data @ d) n)"
  using wrn_cell_append [of d "n - length data" "map Some data"] assms by (simp add: buf_of_def)

lemma buf_of_grow:
  assumes "length data \<le> n" and "n \<le> k"
  shows "realloc_block (buf_of data n) k = buf_of data k"
  using realloc_block_grow [of "map Some data" "n - length data" k] assms by (simp add: buf_of_def)

lemma buf_of_read: "rdn_cell (buf_of data n) 0 (length data) = Inr data"
  using rdn_cell_append [of data "length data" "[]"] by (simp add: buf_of_def)

text \<open>One round keeps the data in the buffer; one doubling is always enough.\<close>

lemma recv_loop_step:
  assumes "length d \<le> BUFFER_SIZE" and "length data \<le> n" and "BUFFER_SIZE \<le> n"
  shows "recv_loop ok (buf_of data n) n (length data) (Received d # as) =
    (if OCSP_MAX_RESPONSE_SIZE < length (data @ d) then Inr None
     else if n \<le> length (data @ d) then
       (if ok (n * 2) then recv_loop ok (buf_of (data @ d) (n * 2)) (n * 2) (length (data @ d)) as else Inr None)
     else recv_loop ok (buf_of (data @ d) n) n (length (data @ d)) as)"
  using assms buf_of_write [of data d n] buf_of_write [of data d "n * 2"] buf_of_grow [of data n "n * 2"]
  by (simp add: Let_def)

lemma recv_loop_received:
  assumes "\<forall>a \<in> set answers. recv_ok a" and "length data \<le> n" and "BUFFER_SIZE \<le> n"
  shows "recv_loop ok (buf_of data n) n (length data) answers = Inr None \<or>
    (\<exists>d k. recv_loop ok (buf_of data n) n (length data) answers
        = Inr (Some (buf_of (data @ d) k, length (data @ d))) \<and> received answers = Some d)"
  using assms
proof (induction answers arbitrary: data n)
  case (Cons a answers)
  show ?case
  proof (cases a)
    case (Received d)
    then have d: "length d \<le> BUFFER_SIZE" using Cons.prems(1) by (simp add: recv_ok_def)
    note step = recv_loop_step [OF d Cons.prems(2,3), of ok answers]
    have IH: "recv_loop ok (buf_of (data @ d) k) k (length (data @ d)) answers = Inr None \<or>
      (\<exists>e k'. recv_loop ok (buf_of (data @ d) k) k (length (data @ d)) answers
        = Inr (Some (buf_of (data @ e) k', length (data @ e)))
        \<and> map_option (append d) (received answers) = Some e)"
      if "length (data @ d) \<le> k" "BUFFER_SIZE \<le> k" for k
      using Cons.IH [of "data @ d" k] Cons.prems(1) that by fastforce
    have more: "length (data @ d) \<le> n * 2" "BUFFER_SIZE \<le> n * 2"
      using d Cons.prems(2,3) by simp_all
    show ?thesis
      using IH [of n] IH [OF more] Cons.prems(3)
      unfolding Received step received.simps by auto
  qed (auto intro: exI [of _ "[]"])
qed simp

lemma recv_loop_all:
  assumes "\<forall>a \<in> set answers. recv_ok a" and "length data \<le> n" and "BUFFER_SIZE \<le> n"
    and "received answers = Some d" and "length (data @ d) \<le> OCSP_MAX_RESPONSE_SIZE"
  shows "\<exists>k. recv_loop (\<lambda>_. True) (buf_of data n) n (length data) answers
    = Inr (Some (buf_of (data @ d) k, length (data @ d)))"
  using assms
proof (induction answers arbitrary: data n d)
  case (Cons a answers)
  show ?case
  proof (cases a)
    case (Received e)
    then have e: "length e \<le> BUFFER_SIZE" using Cons.prems(1) by (simp add: recv_ok_def)
    obtain d' where d: "d = e @ d'" "received answers = Some d'"
      using Cons.prems(4) Received by auto
    note step = recv_loop_step [OF e Cons.prems(2,3), of "\<lambda>_. True" answers]
    have IH: "\<exists>k'. recv_loop (\<lambda>_. True) (buf_of (data @ e) k) k (length (data @ e)) answers
        = Inr (Some (buf_of (data @ d) k', length (data @ d)))"
      if "length (data @ e) \<le> k" "BUFFER_SIZE \<le> k" for k
      using Cons.IH [of "data @ e" k d'] Cons.prems(1,5) that d by simp
    have more: "length (data @ e) \<le> n * 2" "BUFFER_SIZE \<le> n * 2"
      using e Cons.prems(2,3) by simp_all
    show ?thesis
      using IH [of n] IH [OF more] Cons.prems(3,5) d(1)
      unfolding Received step by auto
  qed (use Cons.prems in \<open>auto split: if_splits\<close>)
qed simp

section \<open>Sending the request\<close>

text \<open>
  An answer of \<open>apr_socket_send\<close>: whether it is \<open>APR_SUCCESS\<close>, and the number of bytes
  taken. A peer without a further answer is a send that fails. The results are the status,
  the answers left and what has been sent.
\<close>

type_synonym send_answer = "bool \<times> nat"

fun send_chunk :: "byte list \<Rightarrow> send_answer list \<Rightarrow> byte list \<Rightarrow> bool \<times> send_answer list \<times> byte list" where
  "send_chunk wbuf [] sent = (False, [], sent)"
| "send_chunk wbuf ((rv, wlen) # as) sent =
     (let remain = drop wlen wbuf; sent = sent @ take wlen wbuf in
      if rv \<and> remain \<noteq> [] then send_chunk remain as sent else (rv, as, sent))"

definition TCN_BUFFER_SZ :: nat where "TCN_BUFFER_SZ = 8192"

function send_loop :: "byte list \<Rightarrow> send_answer list \<Rightarrow> byte list \<Rightarrow> bool \<times> byte list" where
  "send_loop req as sent =
     (if req = [] then (True, sent)
      else (let (rv, as, sent) = send_chunk (take TCN_BUFFER_SZ req) as sent in
            if \<not> rv then (False, sent) else send_loop (drop TCN_BUFFER_SZ req) as sent))"
  by pat_completeness auto
termination
  by (relation "measure (\<lambda>(req, _). length req)") (auto simp: TCN_BUFFER_SZ_def)

declare send_loop.simps [simp del]

definition ocsp_send_req :: "send_answer list \<Rightarrow> byte list \<Rightarrow> bool \<times> byte list" where
  "ocsp_send_req answers req = send_loop req answers []"

lemma send_chunk_sent:
  "send_chunk wbuf as sent = (rv, as', sent') \<Longrightarrow>
   \<exists>t rest. wbuf = t @ rest \<and> sent' = sent @ t \<and> (rv \<longrightarrow> rest = [])"
proof (induction wbuf as sent rule: send_chunk.induct)
  case (2 wbuf rv1 wlen as sent)
  have split: "wbuf = take wlen wbuf @ drop wlen wbuf" by simp
  show ?case
  proof (cases "rv1 \<and> drop wlen wbuf \<noteq> []")
    case True
    then obtain t rest where t: "drop wlen wbuf = t @ rest" "sent' = (sent @ take wlen wbuf) @ t" "rv \<longrightarrow> rest = []"
      using "2.IH" [OF refl refl] "2.prems" by (auto simp: Let_def)
    then have "wbuf = (take wlen wbuf @ t) @ rest"
      using split by simp
    then show ?thesis
      using t by (intro exI [of _ "take wlen wbuf @ t"] exI [of _ rest] conjI) auto
  next
    case False
    then show ?thesis
      using "2.prems" split by (intro exI [of _ "take wlen wbuf"] exI [of _ "drop wlen wbuf"]) (auto simp: Let_def)
  qed
qed auto

lemma send_loop_sent:
  "send_loop req as sent = (ok, sent') \<Longrightarrow>
   \<exists>t rest. req = t @ rest \<and> sent' = sent @ t \<and> (ok \<longrightarrow> rest = [])"
proof (induction req as sent rule: send_loop.induct)
  case (1 req as sent)
  obtain rv as1 sent1 where c: "send_chunk (take TCN_BUFFER_SZ req) as sent = (rv, as1, sent1)"
    by (cases "send_chunk (take TCN_BUFFER_SZ req) as sent") auto
  from send_chunk_sent [OF c] obtain t rest where
    t: "take TCN_BUFFER_SZ req = t @ rest" "sent1 = sent @ t" "rv \<longrightarrow> rest = []"
    by blast
  have split: "req = t @ rest @ drop TCN_BUFFER_SZ req"
    using t(1) by (metis append_assoc append_take_drop_id)
  consider "req = []" | "req \<noteq> []" "rv" | "req \<noteq> []" "\<not> rv" by blast
  then show ?case
  proof cases
    case 1
    then show ?thesis using "1.prems" by (simp add: send_loop.simps)
  next
    case 2
    then have "send_loop (drop TCN_BUFFER_SZ req) as1 sent1 = (ok, sent')"
      using "1.prems" c by (subst (asm) send_loop.simps) simp
    then obtain t' rest' where "drop TCN_BUFFER_SZ req = t' @ rest'" "sent' = sent1 @ t'" "ok \<longrightarrow> rest' = []"
      using "1.IH" [OF 2(1) c [symmetric] refl refl] 2(2) by auto
    then show ?thesis
      using split t 2(2) by (intro exI [of _ "t @ t'"] exI [of _ rest']) simp
  next
    case 3
    then have "ok = False" "sent' = sent1"
      using "1.prems" c by (subst (asm) send_loop.simps; simp)+
    then show ?thesis
      using split t by (intro exI [of _ t] exI [of _ "rest @ drop TCN_BUFFER_SZ req"]) simp
  qed
qed

lemma send_chunk_progress:
  assumes "\<forall>(rv, wlen) \<in> set as. rv \<and> 0 < wlen" and "length wbuf \<le> length as" and "wbuf \<noteq> []"
  shows "\<exists>as'. send_chunk wbuf as sent = (True, as', sent @ wbuf) \<and> set as' \<subseteq> set as
    \<and> length as \<le> length as' + length wbuf"
  using assms
proof (induction wbuf as sent rule: send_chunk.induct)
  case (2 wbuf rv wlen as sent)
  then have rv: "rv" "0 < wlen" by auto
  show ?case
  proof (cases "drop wlen wbuf = []")
    case True
    then show ?thesis using rv "2.prems" by (auto simp: Let_def Suc_le_eq)
  next
    case False
    have "length (drop wlen wbuf) \<le> length as" using "2.prems"(2) rv(2) by simp
    then obtain as' where as': "send_chunk (drop wlen wbuf) as (sent @ take wlen wbuf)
        = (True, as', (sent @ take wlen wbuf) @ drop wlen wbuf)"
      "set as' \<subseteq> set as" "length as \<le> length as' + length (drop wlen wbuf)"
      using "2.IH" [OF refl refl _ _ _ False] "2.prems"(1) rv False by auto
    moreover have "length ((rv, wlen) # as) \<le> length as' + length wbuf"
      using as'(3) rv(2) False by simp
    ultimately show ?thesis
      using False rv(1) by (intro exI [of _ as']) (auto simp: Let_def)
  qed
qed auto

lemma send_loop_progress:
  "\<forall>(rv, wlen) \<in> set as. rv \<and> 0 < wlen \<Longrightarrow> length req \<le> length as \<Longrightarrow>
   send_loop req as sent = (True, sent @ req)"
proof (induction req as sent rule: send_loop.induct)
  case (1 req as sent)
  show ?case
  proof (cases "req = []")
    case False
    have ne: "take TCN_BUFFER_SZ req \<noteq> []" using False by (simp add: TCN_BUFFER_SZ_def)
    have le: "length (take TCN_BUFFER_SZ req) \<le> length as" using "1.prems"(2) by simp
    obtain as' where c: "send_chunk (take TCN_BUFFER_SZ req) as sent = (True, as', sent @ take TCN_BUFFER_SZ req)"
      "set as' \<subseteq> set as" "length as \<le> length as' + length (take TCN_BUFFER_SZ req)"
      using send_chunk_progress [OF "1.prems"(1) le ne, of sent] by blast
    have "\<forall>(rv, wlen) \<in> set as'. rv \<and> 0 < wlen" using "1.prems"(1) c(2) by blast
    moreover have "length (drop TCN_BUFFER_SZ req) \<le> length as'" using "1.prems"(2) c(3) by simp
    ultimately have "send_loop (drop TCN_BUFFER_SZ req) as' (sent @ take TCN_BUFFER_SZ req)
        = (True, (sent @ take TCN_BUFFER_SZ req) @ drop TCN_BUFFER_SZ req)"
      using "1.IH" [OF False c(1) [symmetric] refl refl] by blast
    then show ?thesis using False c(1) by (subst send_loop.simps) simp
  qed (simp add: send_loop.simps)
qed

section \<open>The whole exchange\<close>

text \<open>Decimal output of \<open>BIO_printf\<close>.\<close>

fun dec_nat :: "nat \<Rightarrow> byte list" where
  "dec_nat n = (if n < 10 then [word_of_nat (48 + n)] else dec_nat (n div 10) @ [word_of_nat (48 + n mod 10)])"

declare dec_nat.simps [simp del]

definition dec_int :: "int \<Rightarrow> byte list" where
  "dec_int i = (if i < 0 then 45 # dec_nat (nat (- i)) else dec_nat (nat i))"

text \<open>
  The result of \<open>serialize_request\<close>; \<open>der\<close> is the encoding of the request by OpenSSL,
  \<open>None\<close> when \<open>i2d_OCSP_REQUEST_bio\<close> fails.
\<close>

definition serialize_request ::
  "byte list option \<Rightarrow> byte list \<Rightarrow> int \<Rightarrow> byte list \<Rightarrow> byte list option" where
  "serialize_request der host port path =
     (case der of
        None \<Rightarrow> None
      | Some d \<Rightarrow> Some
          (ascii ''POST '' @ path @ ascii '' HTTP/1.0'' @ crlf @
           ascii ''Host: '' @ host @ ascii '':'' @ dec_int port @ crlf @
           ascii ''Content-Type: application/ocsp-request'' @ crlf @
           ascii ''Content-Length: '' @ dec_int (int (length d)) @ crlf @
           crlf @ d))"

text \<open>\<open>sscanf(s, "%d", &i)\<close>: white space, a sign and at least one digit.\<close>

definition sscanf_d :: "byte list \<Rightarrow> int option" where
  "sscanf_d s =
     (let s1 = dropWhile isspace s;
          ds = takeWhile isdigit (drop (sign_len s1) s1)
      in if ds = [] then None
         else Some (if hd s1 = 45 then - int (digits_value ds) else int (digits_value ds)))"

text \<open>
  The world outside: the allocator, OpenSSL's parsers and the peer a host and port name, which
  may behave differently under another timeout.
\<close>

record 'r ocsp_net =
  n_palloc :: "nat \<Rightarrow> bool"
  n_bio_new :: bool
  n_eof_clears :: bool
  n_d2i :: "byte list \<Rightarrow> 'r option"
  n_parse_url :: "byte list \<Rightarrow> (byte list \<times> byte list \<times> byte list) option"
  n_resolve :: "byte list \<Rightarrow> int \<Rightarrow> bool"
  n_socket :: bool
  n_connect :: "byte list \<Rightarrow> int \<Rightarrow> bool"
  n_send :: "byte list \<Rightarrow> int \<Rightarrow> int \<Rightarrow> send_answer list"
  n_recv :: "byte list \<Rightarrow> int \<Rightarrow> int \<Rightarrow> recv_answer list"

definition make_socket :: "'r ocsp_net \<Rightarrow> byte list \<Rightarrow> int \<Rightarrow> bool" where
  "make_socket net hostname port =
     (if n_resolve net hostname port then
        (if n_socket net then n_connect net hostname port else False)
      else False)"

datatype net_event =
    Connect "byte list" int
  | Send "byte list"
  | Close_Socket
  | Free_Request
  | Destroy_Pool

definition get_ocsp_response ::
  "'r ocsp_net \<Rightarrow> byte list \<Rightarrow> byte list option \<Rightarrow> int \<Rightarrow> ('r option \<times> net_event list) run" where
  "get_ocsp_response net url der timeout =
     (case n_parse_url net url of
        None \<Rightarrow> Inr (None, [])
      | Some (hostname, c_port, path) \<Rightarrow>
          (case sscanf_d c_port of
             None \<Rightarrow> Inr (None, [])
           | Some port \<Rightarrow>
               (case serialize_request der hostname port path of
                  None \<Rightarrow> Inr (None, [])
                | Some bio_req \<Rightarrow>
                    if \<not> make_socket net hostname port then Inr (None, [Free_Request, Destroy_Pool])
                    else
                      (let (ok, sent) = ocsp_send_req (n_send net hostname port timeout) bio_req in
                       run_bind
                         (if ok then
                            ocsp_get_resp (n_palloc net) (parse_ocsp_resp (n_bio_new net) (n_eof_clears net) (n_d2i net))
                              (n_recv net hostname port timeout)
                          else Inr None)
                         (\<lambda>resp. Inr (resp, [Connect hostname port, Send sent, Close_Socket, Free_Request, Destroy_Pool]))))))"

section \<open>What the exchange guarantees\<close>

lemma recv_loop_bound:
  "recv_loop ok buf n k answers = Inr (Some (b, t)) \<Longrightarrow> k \<le> OCSP_MAX_RESPONSE_SIZE \<Longrightarrow>
   t \<le> OCSP_MAX_RESPONSE_SIZE"
  by (induction ok buf n k answers rule: recv_loop.induct)
    (auto simp: Let_def elim!: run_bind_InrE split: if_split_asm)

lemma ocsp_get_resp_cases:
  assumes "\<forall>a \<in> set answers. recv_ok a"
  obtains "ocsp_get_resp ok parse answers = Inr None"
    | d where "ocsp_get_resp ok parse answers = parse d" and "received answers = Some d"
      and "length d \<le> OCSP_MAX_RESPONSE_SIZE"
proof -
  have b: "malloc_block BUFFER_SIZE = buf_of [] BUFFER_SIZE"
    by (simp add: buf_of_def malloc_block_def)
  have "recv_loop ok (buf_of [] BUFFER_SIZE) BUFFER_SIZE 0 answers = Inr None \<or>
    (\<exists>d k. recv_loop ok (buf_of [] BUFFER_SIZE) BUFFER_SIZE 0 answers = Inr (Some (buf_of d k, length d))
       \<and> received answers = Some d)"
    using recv_loop_received [OF assms, of "[]" BUFFER_SIZE ok] by simp
  then show ?thesis
    using that recv_loop_bound [of ok "buf_of [] BUFFER_SIZE" BUFFER_SIZE 0 answers]
    by (cases "ok BUFFER_SIZE") (auto simp: ocsp_get_resp_def b buf_of_read)
qed

lemma ocsp_get_resp_received:
  assumes "\<forall>a \<in> set answers. recv_ok a" and "received answers = Some d"
    and "length d \<le> OCSP_MAX_RESPONSE_SIZE"
  shows "ocsp_get_resp (\<lambda>_. True) parse answers = parse d"
proof -
  have b: "malloc_block BUFFER_SIZE = buf_of [] BUFFER_SIZE"
    by (simp add: buf_of_def malloc_block_def)
  show ?thesis
    using recv_loop_all [OF assms(1), of "[]" BUFFER_SIZE d] assms(2,3)
    by (auto simp: ocsp_get_resp_def b buf_of_read)
qed

lemma get_ocsp_response_total:
  assumes "\<forall>a \<in> set (n_recv net host port timeout). recv_ok a"
  shows "safe (ocsp_get_resp (n_palloc net) (parse_ocsp_resp (n_bio_new net) (n_eof_clears net) (n_d2i net))
    (n_recv net host port timeout))"
  by (rule ocsp_get_resp_cases [OF assms, of "n_palloc net"
        "parse_ocsp_resp (n_bio_new net) (n_eof_clears net) (n_d2i net)"])
    (simp_all add: parse_ocsp_resp_no_fault)

section \<open>Properties\<close>

text \<open>
  C13: whatever bytes a responder sends, the HTTP parser returns: it reads and writes only
  inside its line buffer, the status line and the header lines included.
\<close>

theorem parse_ocsp_resp_safe: "safe (parse_ocsp_resp bio_ok eof_clears d2i buf)"
  by (rule parse_ocsp_resp_no_fault)

text \<open>
  C14: against any peer and with any allocator, the exchange with a responder ends without a
  memory error (the receive buffer is always large enough for what is copied into it), and a
  socket that was connected is closed, after which the request and the pool are released.
\<close>

theorem get_ocsp_response_safe:
  assumes "\<And>host port. \<forall>a \<in> set (n_recv net host port timeout). recv_ok a"
  shows "\<exists>resp evs. get_ocsp_response net url der timeout = Inr (resp, evs) \<and>
    (evs = [] \<or> evs = [Free_Request, Destroy_Pool] \<or>
     (\<exists>host port sent. evs = [Connect host port, Send sent, Close_Socket, Free_Request, Destroy_Pool]))"
proof -
  have "\<exists>r. ocsp_get_resp (n_palloc net) (parse_ocsp_resp (n_bio_new net) (n_eof_clears net) (n_d2i net))
      (n_recv net host port timeout) = Inr r" for host port
    by (rule safeE [OF get_ocsp_response_total [OF assms, of host port]]) simp
  then obtain g where g: "\<And>host port. ocsp_get_resp (n_palloc net)
      (parse_ocsp_resp (n_bio_new net) (n_eof_clears net) (n_d2i net)) (n_recv net host port timeout)
        = Inr (g host port)"
    by metis
  show ?thesis
    unfolding get_ocsp_response_def g by (auto split: option.splits prod.splits)
qed

theorem get_ocsp_response_safe_witness:
  "\<exists>resp evs. get_ocsp_response
      \<lparr>n_palloc = \<lambda>_. True, n_bio_new = True, n_eof_clears = True, n_d2i = \<lambda>_. None :: nat option,
       n_parse_url = \<lambda>_. Some (ascii ''h'', ascii ''80'', ascii ''/''),
       n_resolve = \<lambda>_ _. True, n_socket = True, n_connect = \<lambda>_ _. True,
       n_send = \<lambda>_ _ _. [(True, 4000)], n_recv = \<lambda>_ _ _. [Received [72], Recv_Eof 0]\<rparr>
      [] (Some [48]) 15 = Inr (resp, evs) \<and>
    (evs = [] \<or> evs = [Free_Request, Destroy_Pool] \<or>
     (\<exists>host port sent. evs = [Connect host port, Send sent, Close_Socket, Free_Request, Destroy_Pool]))"
  by (rule get_ocsp_response_safe) (simp add: recv_ok_def BUFFER_SIZE_def)

text \<open>
  C15: the response reader returns the decoded body of a well-formed HTTP response, however
  the peer cuts it into packets, when the numeric status code is 200, and NULL otherwise. The
  code is compared after its conversion to \<open>int\<close>: codes that are 200 modulo \<open>2 ^ 32\<close>
  are accepted as well.
\<close>

theorem ocsp_get_resp_http:
  assumes "\<forall>a \<in> set answers. recv_ok a" and "received answers = Some (http_bytes h)"
    and "length (http_bytes h) \<le> OCSP_MAX_RESPONSE_SIZE"
    and "http_ok h" and "digits_value (hr_code h) < 2 ^ 64"
  shows "ocsp_get_resp (\<lambda>_. True) (parse_ocsp_resp True eof_clears d2i) answers =
    Inr (if digits_value (hr_code h) mod 2 ^ 32 = 200 then d2i (hr_body h) else None)"
  using ocsp_get_resp_received [OF assms(1-3), of "parse_ocsp_resp True eof_clears d2i"]
    parse_ocsp_resp_http_bytes [OF assms(4,5), of eof_clears d2i]
  by (simp add: int_of_ulong_eq_200)

theorem ocsp_get_resp_http_witness:
  "ocsp_get_resp (\<lambda>_. True) (parse_ocsp_resp True False Some)
     [Received (ascii ''HTTP/1.0 42949''), Received (ascii ''67496 OK'' @ crlf @ ascii ''A: b''),
      Received (crlf @ crlf @ [48, 0]), Recv_Eof 0] =
   Inr (if digits_value (ascii ''4294967496'') mod 2 ^ 32 = 200 then Some [48, 0] else None)
   \<and> digits_value (ascii ''4294967496'') mod 2 ^ 32 = 200"
proof
  show "digits_value (ascii ''4294967496'') mod 2 ^ 32 = 200"
    by (simp add: ascii_def digits_value_def)
  let ?h = "\<lparr>hr_proto = ascii ''HTTP/1.0'', hr_code = ascii ''4294967496'', hr_reason = ascii ''OK'',
    hr_headers = [ascii ''A: b''], hr_body = [48, 0]\<rparr>"
  have "ocsp_get_resp (\<lambda>_. True) (parse_ocsp_resp True False Some)
     [Received (ascii ''HTTP/1.0 42949''), Received (ascii ''67496 OK'' @ crlf @ ascii ''A: b''),
      Received (crlf @ crlf @ [48, 0]), Recv_Eof 0] =
     Inr (if digits_value (hr_code ?h) mod 2 ^ 32 = 200 then Some (hr_body ?h) else None)"
    by (rule ocsp_get_resp_http)
      (simp_all add: recv_ok_def BUFFER_SIZE_def OCSP_MAX_RESPONSE_SIZE_def http_ok_def http_bytes_def
        status_line_def header_ok_def crlf_def ascii_def in_word_def isspace_def isdigit_def digits_value_def)
  then show "ocsp_get_resp (\<lambda>_. True) (parse_ocsp_resp True False Some)
     [Received (ascii ''HTTP/1.0 42949''), Received (ascii ''67496 OK'' @ crlf @ ascii ''A: b''),
      Received (crlf @ crlf @ [48, 0]), Recv_Eof 0] =
   Inr (if digits_value (ascii ''4294967496'') mod 2 ^ 32 = 200 then Some [48, 0] else None)"
    by simp
qed

text \<open>
  A response of more than 65536 bytes is given up, whatever it contains and however it
  is cut into packets.
\<close>

theorem ocsp_get_resp_oversize:
  assumes "\<forall>a \<in> set answers. recv_ok a" and "received answers = Some d"
    and "OCSP_MAX_RESPONSE_SIZE < length d"
  shows "ocsp_get_resp palloc_ok parse answers = Inr None"
  by (rule ocsp_get_resp_cases [OF assms(1), of palloc_ok parse]) (use assms(2,3) in auto)

theorem ocsp_get_resp_oversize_witness:
  "ocsp_get_resp (\<lambda>_. True) (\<lambda>d. Inr (Some d)) (replicate 129 (Received (replicate 512 1)) @ [Recv_Eof 0])
    = Inr None"
proof (rule ocsp_get_resp_oversize)
  have r: "received (replicate n (Received c) @ [Recv_Eof 0]) = Some (concat (replicate n c))" for n c
    by (induction n) auto
  show "received (replicate 129 (Received (replicate 512 1)) @ [Recv_Eof 0])
      = Some (concat (replicate 129 (replicate 512 1)))"
    by (rule r)
  show "OCSP_MAX_RESPONSE_SIZE < length (concat (replicate 129 (replicate 512 (1 :: byte))))"
    by (simp add: length_concat sum_list_replicate OCSP_MAX_RESPONSE_SIZE_def)
qed (auto simp: recv_ok_def BUFFER_SIZE_def)

text \<open>
  C39: what is sent is a prefix of the request, also when the socket takes it in parts; the
  function reports success only after all of it; and it does succeed against a peer whose
  sends all take something.
\<close>

theorem ocsp_send_req_sent:
  "(case ocsp_send_req answers req of (ok, sent) \<Rightarrow>
      sent = take (length sent) req \<and> (ok \<longrightarrow> sent = req)) \<and>
   ((\<forall>(rv, wlen) \<in> set answers. rv \<and> 0 < wlen) \<and> length req \<le> length answers \<longrightarrow>
      ocsp_send_req answers req = (True, req))"
proof -
  obtain ok sent where r: "send_loop req answers [] = (ok, sent)" by fastforce
  with send_loop_sent [OF r] send_loop_progress [of answers req "[]"] show ?thesis
    by (auto simp: ocsp_send_req_def)
qed

theorem ocsp_send_req_sent_witness:
  "ocsp_send_req [(True, 2), (True, 1), (True, 9)] [1, 2, 3] = (True, [1, 2, 3])"
proof -
  have "(\<forall>(rv, wlen) \<in> set [(True, 2 :: nat), (True, 1), (True, 9)]. rv \<and> 0 < wlen) \<and>
      length [1 :: byte, 2, 3] \<le> length [(True, 2 :: nat), (True, 1), (True, 9)]"
    by simp
  with ocsp_send_req_sent [where answers = "[(True, 2), (True, 1), (True, 9)]" and req = "[1, 2, 3]"] show ?thesis
    by blast
qed

end
