(* ===== verification/Ssl_Conf.thy ===== *)
theory Ssl_Conf
  imports Ssl_Context Ocsp_Http Interfaces
begin

text \<open>
  The configuration commands, \<^verbatim>\<open>native/src/sslconf.c\<close>: an \<open>SSLConf\<close> collects the
  four settings of Tomcat Native for OCSP itself (\<open>check\<close>, although its name says
  otherwise), hands them to a context (\<open>assign\<close>) and passes every other command on to
  OpenSSL (\<open>apply\<close>, \<open>finish\<close>).

  Strings from Java are \<open>None\<close> for \<open>null\<close> and otherwise the bytes in front of the
  terminating NUL. What OpenSSL and APR answer are arguments. OpenSSL requires the
  \<open>SSL_CONF_CTX\<close> it is given to be valid, so that passing NULL is a fault.
\<close>

section \<open>Numbers and strings\<close>

definition int_of_long :: "int \<Rightarrow> int" where
  "int_of_long v = sint (word_of_int v :: 32 word)"

text \<open>
  \<open>strtol\<close> to base 10 with 64-bit \<open>long\<close>: the value, and whether \<open>errno\<close> is set to
  \<open>ERANGE\<close>. Without digits the value is 0 and \<open>errno\<close> stays as it was.
\<close>

definition strtol :: "byte list \<Rightarrow> int \<times> bool" where
  "strtol s =
     (let s1 = dropWhile isspace s;
          v = int (digits_value (takeWhile isdigit (drop (sign_len s1) s1)));
          v = (if s1 \<noteq> [] \<and> hd s1 = 45 then - v else v)
      in if v < - (2 ^ 63) then (- (2 ^ 63), True)
         else if 2 ^ 63 - 1 < v then (2 ^ 63 - 1, True)
         else (v, False))"

definition tolower :: "byte \<Rightarrow> byte" where
  "tolower b = (if 65 \<le> b \<and> b \<le> 90 then b + 32 else b)"

definition strcasecmp :: "byte list \<Rightarrow> byte list \<Rightarrow> int" where
  "strcasecmp s t = strcmp (map tolower s) (map tolower t)"

definition mul_int :: "int \<Rightarrow> int \<Rightarrow> int run" where
  "mul_int a b = (if - (2 ^ 31) \<le> a * b \<and> a * b < 2 ^ 31 then Inr (a * b) else Inl Signed_Overflow)"

text \<open>A C string that is used without a test for NULL.\<close>

definition deref :: "'a option \<Rightarrow> 'a run" where
  "deref p = (case p of None \<Rightarrow> Inl Null_Deref | Some x \<Rightarrow> Inr x)"

lemma deref_simps [simp]: "deref None = Inl Null_Deref" "deref (Some x) = Inr x"
  by (simp_all add: deref_def)

lemma isl_deref [simp]: "isl (run_bind (deref p) k) \<longleftrightarrow> p = None \<or> isl (k (the p))"
  by (cases p) auto

section \<open>Files and directories\<close>

datatype filetype = APR_REG | APR_DIR | APR_OTHER

definition PCM_EXISTS :: "32 word" where "PCM_EXISTS = 1"
definition PCM_ISREG :: "32 word" where "PCM_ISREG = 2"
definition PCM_ISDIR :: "32 word" where "PCM_ISDIR = 4"
definition PCM_ISNONZERO :: "32 word" where "PCM_ISNONZERO = 8"

definition FLAGS_CHECK_FILE :: "32 word" where "FLAGS_CHECK_FILE = PCM_EXISTS OR PCM_ISREG OR PCM_ISNONZERO"
definition FLAGS_CHECK_DIR :: "32 word" where "FLAGS_CHECK_DIR = PCM_EXISTS OR PCM_ISDIR"

lemmas pcm_simps = PCM_EXISTS_def PCM_ISREG_def PCM_ISDIR_def PCM_ISNONZERO_def
  FLAGS_CHECK_FILE_def FLAGS_CHECK_DIR_def

text \<open>
  \<open>apr_stat\<close> yields type and size of the file at a path, or fails. \<open>finfo\<close> is filled in
  only by \<open>apr_stat\<close>.
\<close>

definition path_check :: "(byte list \<Rightarrow> (filetype \<times> int) option) \<Rightarrow> byte list option \<Rightarrow> 32 word \<Rightarrow> int run" where
  "path_check apr_stat path pcm =
     (case path of
        None \<Rightarrow> Inr 1
      | Some p \<Rightarrow>
          (let finfo = (if pcm AND PCM_EXISTS \<noteq> 0 then apr_stat p else None) in
           if pcm AND PCM_EXISTS \<noteq> 0 \<and> finfo = None then Inr 1
           else run_bind (if pcm AND PCM_ISREG \<noteq> 0
                          then (case finfo of None \<Rightarrow> Inl Uninitialised | Some (t, _) \<Rightarrow> Inr (t \<noteq> APR_REG))
                          else Inr False) (\<lambda>r. if r then Inr 1
           else run_bind (if pcm AND PCM_ISDIR \<noteq> 0
                          then (case finfo of None \<Rightarrow> Inl Uninitialised | Some (t, _) \<Rightarrow> Inr (t \<noteq> APR_DIR))
                          else Inr False) (\<lambda>r. if r then Inr 1
           else run_bind (if pcm AND PCM_ISNONZERO \<noteq> 0
                          then (case finfo of None \<Rightarrow> Inl Uninitialised | Some (_, n) \<Rightarrow> Inr (n \<le> 0))
                          else Inr False) (\<lambda>r. if r then Inr 1
           else Inr 0)))))"

definition check_dir :: "(byte list \<Rightarrow> (filetype \<times> int) option) \<Rightarrow> byte list option \<Rightarrow> int run" where
  "check_dir apr_stat dir = path_check apr_stat dir FLAGS_CHECK_DIR"

definition check_file :: "(byte list \<Rightarrow> (filetype \<times> int) option) \<Rightarrow> byte list option \<Rightarrow> int run" where
  "check_file apr_stat f = path_check apr_stat f FLAGS_CHECK_FILE"

text \<open>Both tests read \<open>finfo\<close> only when it is filled in, and find what they look for.\<close>

lemma check_dir_result:
  "check_dir apr_stat dir =
     Inr (if \<exists>p n. dir = Some p \<and> apr_stat p = Some (APR_DIR, n) then 0 else 1)"
proof (cases dir)
  case (Some p)
  then show ?thesis
    by (cases "apr_stat p") (auto simp: check_dir_def path_check_def pcm_simps Let_def)
qed (simp add: check_dir_def path_check_def)

lemma check_file_result:
  "check_file apr_stat f =
     Inr (if \<exists>p n. f = Some p \<and> apr_stat p = Some (APR_REG, n) \<and> 0 < n then 0 else 1)"
proof (cases f)
  case (Some p)
  then show ?thesis
    by (cases "apr_stat p") (auto simp: check_file_def path_check_def pcm_simps Let_def)
qed (simp add: check_file_def path_check_def)

section \<open>Operations\<close>

datatype conf_value_type =
    SSL_CONF_TYPE_UNKNOWN | SSL_CONF_TYPE_STRING | SSL_CONF_TYPE_FILE | SSL_CONF_TYPE_DIR | SSL_CONF_TYPE_NONE

datatype conf_call =
    Conf_new
  | Conf_free ptr
  | Conf_set_flags ptr "32 word"
  | Conf_register_cleanup
  | Conf_set_ssl_ctx ptr "ptr option"
  | Conf_cmd ptr "byte list" "byte list option"
  | Conf_finish ptr
  | Conf_throw string

definition SSL_THROW_RETURN :: int where "SSL_THROW_RETURN = -9"

definition NO_OCSP_CHECK :: "byte list" where "NO_OCSP_CHECK = ascii ''NO_OCSP_CHECK''"
definition OCSP_SOFT_FAIL :: "byte list" where "OCSP_SOFT_FAIL = ascii ''OCSP_SOFT_FAIL''"
definition OCSP_TIMEOUT :: "byte list" where "OCSP_TIMEOUT = ascii ''OCSP_TIMEOUT''"
definition OCSP_VERIFY_FLAGS :: "byte list" where "OCSP_VERIFY_FLAGS = ascii ''OCSP_VERIFY_FLAGS''"
definition CipherString :: "byte list" where "CipherString = ascii ''CipherString''"

lemmas conf_commands =
  NO_OCSP_CHECK_def OCSP_SOFT_FAIL_def OCSP_TIMEOUT_def OCSP_VERIFY_FLAGS_def CipherString_def

text \<open>\<open>cctx\<close> is the result of \<open>SSL_CONF_CTX_new\<close>, \<open>ec\<close> of \<open>SSL_ERR_get\<close>.\<close>

definition SSLConf_make ::
  "ptr option \<Rightarrow> nat \<Rightarrow> bool \<Rightarrow> 32 word \<Rightarrow> tcn_ssl_conf_ctxt_t option \<times> conf_call list" where
  "SSLConf_make cctx ec pcalloc_ok flags =
     (if cctx = None \<or> ec \<noteq> 0 then (None, [Conf_new, Conf_throw ''Could not create SSL_CONF context''])
      else if \<not> pcalloc_ok then (None, [Conf_new, Conf_set_flags (the cctx) flags, Conf_throw ''APR''])
      else (Some \<lparr>cc_cctx = cctx, cc_no_ocsp_check = OCSP_NO_CHECK_DEFAULT,
                  cc_ocsp_soft_fail = OCSP_SOFT_FAIL_DEFAULT, cc_ocsp_timeout = OCSP_TIMEOUT_DEFAULT,
                  cc_ocsp_verify_flags = OCSP_VERIFY_FLAGS_DEFAULT\<rparr>,
            [Conf_new, Conf_set_flags (the cctx) flags, Conf_register_cleanup]))"

definition ssl_ctx_config_cleanup :: "tcn_ssl_conf_ctxt_t \<Rightarrow> tcn_ssl_conf_ctxt_t \<times> conf_call list" where
  "ssl_ctx_config_cleanup c =
     (case cc_cctx c of None \<Rightarrow> (c, []) | Some cctx \<Rightarrow> (c\<lparr>cc_cctx := None\<rparr>, [Conf_free cctx]))"

definition SSLConf_free :: "tcn_ssl_conf_ctxt_t \<Rightarrow> tcn_ssl_conf_ctxt_t \<times> conf_call list" where
  "SSLConf_free c = ssl_ctx_config_cleanup c"

record conf_env =
  e_value_type :: "byte list \<Rightarrow> conf_value_type"
  e_type_ec :: "byte list \<Rightarrow> nat"
  e_stat :: "byte list \<Rightarrow> (filetype \<times> int) option"

definition SSLConf_check ::
  "conf_env \<Rightarrow> byte list option \<Rightarrow> byte list option \<Rightarrow> tcn_ssl_conf_ctxt_t
   \<Rightarrow> (int \<times> tcn_ssl_conf_ctxt_t \<times> conf_call list) run" where
  "SSLConf_check env cmd value c =
     (case cmd of
        None \<Rightarrow> Inr (SSL_THROW_RETURN, c, [Conf_throw ''Can not check null SSL_CONF command''])
      | Some cmd \<Rightarrow>
          if strcmp cmd NO_OCSP_CHECK = 0 then
            run_bind (deref value) (\<lambda>v.
            Inr (1, c\<lparr>cc_no_ocsp_check := if strcasecmp v (ascii ''false'') = 0 then 0 else 1\<rparr>, []))
          else if strcmp cmd OCSP_SOFT_FAIL = 0 then
            run_bind (deref value) (\<lambda>v.
            Inr (1, c\<lparr>cc_ocsp_soft_fail := if strcasecmp v (ascii ''false'') = 0 then 0 else 1\<rparr>, []))
          else if strcmp cmd OCSP_TIMEOUT = 0 then
            run_bind (deref value) (\<lambda>v.
            let (l, errno) = strtol v; i = int_of_long l in
            if \<not> errno then run_bind (mul_int i 1000) (\<lambda>t. Inr (1, c\<lparr>cc_ocsp_timeout := t\<rparr>, []))
            else Inr (1, c, []))
          else if strcmp cmd OCSP_VERIFY_FLAGS = 0 then
            run_bind (deref value) (\<lambda>v.
            let (l, errno) = strtol v; i = int_of_long l in
            if \<not> errno then Inr (1, c\<lparr>cc_ocsp_verify_flags := i\<rparr>, []) else Inr (1, c, []))
          else
            run_bind (deref (cc_cctx c)) (\<lambda>_.
            if e_type_ec env cmd \<noteq> 0 then
              Inr (SSL_THROW_RETURN, c, [Conf_throw ''Could not determine SSL_CONF command type''])
            else if e_value_type env cmd = SSL_CONF_TYPE_UNKNOWN then
              Inr (SSL_THROW_RETURN, c, [Conf_throw ''Invalid SSL_CONF command''])
            else if e_value_type env cmd = SSL_CONF_TYPE_FILE then
              (if value = None then
                 Inr (SSL_THROW_RETURN, c, [Conf_throw ''needs a non-empty file argument''])
               else run_bind (check_file (e_stat env) value) (\<lambda>r. if r \<noteq> 0 then
                 Inr (SSL_THROW_RETURN, c, [Conf_throw ''file does not exist or is empty''])
               else Inr (1, c, [])))
            else if e_value_type env cmd = SSL_CONF_TYPE_DIR then
              (if value = None then
                 Inr (SSL_THROW_RETURN, c, [Conf_throw ''needs a non-empty directory argument''])
               else run_bind (check_dir (e_stat env) value) (\<lambda>r. if r \<noteq> 0 then
                 Inr (SSL_THROW_RETURN, c, [Conf_throw ''directory does not exist''])
               else Inr (1, c, [])))
            else Inr (1, c, [])))"

definition SSLConf_assign ::
  "tcn_ssl_conf_ctxt_t \<Rightarrow> tcn_ssl_ctxt_t \<Rightarrow> (tcn_ssl_ctxt_t \<times> conf_call list) run" where
  "SSLConf_assign c sc =
     run_bind (deref (cc_cctx c)) (\<lambda>cctx.
     Inr (sc\<lparr>c_no_ocsp_check := cc_no_ocsp_check c, c_ocsp_soft_fail := cc_ocsp_soft_fail c,
             c_ocsp_timeout := cc_ocsp_timeout c, c_ocsp_verify_flags := cc_ocsp_verify_flags c\<rparr>,
          [Conf_set_ssl_ctx cctx (c_ctx sc)]))"

text \<open>
  \<open>answer\<close> is what \<open>SSL_CONF_cmd\<close> returns for a command and its value, with the code that
  \<open>SSL_ERR_get\<close> finds afterwards.
\<close>

definition SSLConf_apply ::
  "bool \<Rightarrow> (byte list \<Rightarrow> byte list option \<Rightarrow> int \<times> nat) \<Rightarrow> byte list option \<Rightarrow> byte list option
   \<Rightarrow> tcn_ssl_conf_ctxt_t \<Rightarrow> (int \<times> conf_call list) run" where
  "SSLConf_apply malloc_ok answer cmd value c =
     (case cmd of
        None \<Rightarrow> Inr (SSL_THROW_RETURN, [Conf_throw ''Can not apply null SSL_CONF command''])
      | Some cmd \<Rightarrow>
          run_bind
            (if strcmp cmd CipherString = 0 then
               run_bind (deref value) (\<lambda>v.
               if \<not> malloc_ok then Inr None
               else run_bind (cipher_buf v) (\<lambda>buf.
                    run_bind (rdn_cell buf 0 (length buf)) (\<lambda>bs. Inr (Some (Some (c_str bs))))))
             else Inr (Some value))
          (\<lambda>arg. case arg of
             None \<Rightarrow> Inr (SSL_THROW_RETURN, [Conf_throw ''Could not allocate memory to adjust cipher string''])
           | Some arg \<Rightarrow>
               if strcmp cmd NO_OCSP_CHECK = 0 then Inr (1, [])
               else if strcmp cmd OCSP_SOFT_FAIL = 0 then Inr (1, [])
               else if strcmp cmd OCSP_TIMEOUT = 0 then Inr (1, [])
               else if strcmp cmd OCSP_VERIFY_FLAGS = 0 then Inr (1, [])
               else
                 run_bind (deref (cc_cctx c)) (\<lambda>cctx.
                 let (rc, ec) = answer cmd arg in
                 if rc \<le> 0 \<or> ec \<noteq> 0
                 then Inr (SSL_THROW_RETURN, [Conf_cmd cctx cmd arg, Conf_throw ''Could not apply SSL_CONF command''])
                 else Inr (rc, [Conf_cmd cctx cmd arg]))))"

definition SSLConf_finish :: "int \<times> nat \<Rightarrow> tcn_ssl_conf_ctxt_t \<Rightarrow> (int \<times> conf_call list) run" where
  "SSLConf_finish answer c =
     run_bind (deref (cc_cctx c)) (\<lambda>cctx.
     let (rc, ec) = answer in
     if rc \<le> 0 \<or> ec \<noteq> 0
     then Inr (SSL_THROW_RETURN, [Conf_finish cctx, Conf_throw ''Could not finish SSL_CONF commands''])
     else Inr (rc, [Conf_finish cctx]))"

section \<open>Sequences of commands\<close>

text \<open>
  A client calls \<open>check\<close> for each of its commands, in order; the specification of the four
  settings is the last value that was given for each.
\<close>

type_synonym command = "byte list option \<times> byte list option"

definition check_exec :: "conf_env \<Rightarrow> command \<Rightarrow> tcn_ssl_conf_ctxt_t \<Rightarrow> tcn_ssl_conf_ctxt_t run" where
  "check_exec env x c = run_bind (SSLConf_check env (fst x) (snd x) c) (\<lambda>(rc, c, calls). Inr c)"

definition run_checks :: "conf_env \<Rightarrow> command list \<Rightarrow> tcn_ssl_conf_ctxt_t \<Rightarrow> tcn_ssl_conf_ctxt_t run" where
  "run_checks env = run_ops (check_exec env)"

definition flag_value :: "byte list \<Rightarrow> int option" where
  "flag_value v = Some (if map tolower v = ascii ''false'' then 0 else 1)"

definition number_value :: "int \<Rightarrow> byte list \<Rightarrow> int option" where
  "number_value k v = (if snd (strtol v) then None else Some (int_of_long (fst (strtol v)) * k))"

text \<open>The value that a command gives to the setting \<open>key\<close>, if any, and the last one.\<close>

definition gives :: "byte list \<Rightarrow> (byte list \<Rightarrow> int option) \<Rightarrow> command \<Rightarrow> int option" where
  "gives key parse x = (if fst x = Some key \<and> snd x \<noteq> None then parse (the (snd x)) else None)"

definition last_value :: "byte list \<Rightarrow> (byte list \<Rightarrow> int option) \<Rightarrow> command list \<Rightarrow> int \<Rightarrow> int" where
  "last_value key parse cmds old = last (old # map the (filter (\<lambda>x. x \<noteq> None) (map (gives key parse) cmds)))"

lemma strcasecmp_false: "strcasecmp v (ascii ''false'') = 0 \<longleftrightarrow> map tolower v = ascii ''false''"
  by (simp add: strcasecmp_def ascii_def tolower_def)

lemma commands_differ:
  "NO_OCSP_CHECK \<noteq> OCSP_SOFT_FAIL" "NO_OCSP_CHECK \<noteq> OCSP_TIMEOUT" "NO_OCSP_CHECK \<noteq> OCSP_VERIFY_FLAGS"
  "OCSP_SOFT_FAIL \<noteq> OCSP_TIMEOUT" "OCSP_SOFT_FAIL \<noteq> OCSP_VERIFY_FLAGS" "OCSP_TIMEOUT \<noteq> OCSP_VERIFY_FLAGS"
  "CipherString \<noteq> NO_OCSP_CHECK" "CipherString \<noteq> OCSP_SOFT_FAIL" "CipherString \<noteq> OCSP_TIMEOUT"
  "CipherString \<noteq> OCSP_VERIFY_FLAGS"
  by (simp_all add: conf_commands ascii_def)

lemmas commands_distinct [simp] = commands_differ commands_differ [symmetric]

definition tomcat_command :: "byte list \<Rightarrow> bool" where
  "tomcat_command cmd \<longleftrightarrow> cmd \<in> {NO_OCSP_CHECK, OCSP_SOFT_FAIL, OCSP_TIMEOUT, OCSP_VERIFY_FLAGS}"

text \<open>A command of OpenSSL leaves the settings alone.\<close>

lemma SSLConf_check_openssl:
  assumes "\<not> tomcat_command cmd" and "SSLConf_check env (Some cmd) value c = Inr (rc, c', calls)"
  shows "c' = c"
  using assms
  by (auto simp: SSLConf_check_def tomcat_command_def check_file_result check_dir_result elim!: run_bind_InrE
      split: if_split_asm)

text \<open>The effect of one command on the settings.\<close>

definition given :: "int option \<Rightarrow> int \<Rightarrow> int" where
  "given v old = (case v of None \<Rightarrow> old | Some x \<Rightarrow> x)"

lemma check_exec_settings:
  assumes "check_exec env x c = Inr c'"
  shows "c' = c\<lparr>cc_no_ocsp_check := given (gives NO_OCSP_CHECK flag_value x) (cc_no_ocsp_check c),
                cc_ocsp_soft_fail := given (gives OCSP_SOFT_FAIL flag_value x) (cc_ocsp_soft_fail c),
                cc_ocsp_timeout := given (gives OCSP_TIMEOUT (number_value 1000) x) (cc_ocsp_timeout c),
                cc_ocsp_verify_flags := given (gives OCSP_VERIFY_FLAGS (number_value 1) x) (cc_ocsp_verify_flags c)\<rparr>"
proof -
  obtain cmd v where x: "x = (cmd, v)" by fastforce
  obtain rc calls where s: "SSLConf_check env cmd v c = Inr (rc, c', calls)"
    using assms by (auto simp: check_exec_def x elim!: run_bind_InrE)
  show ?thesis
  proof (cases cmd)
    case None
    then show ?thesis using s by (simp add: SSLConf_check_def x gives_def given_def)
  next
    case (Some k)
    show ?thesis
    proof (cases "tomcat_command k")
      case True
      then show ?thesis
        using s Some
        by (auto simp: x tomcat_command_def SSLConf_check_def gives_def given_def flag_value_def number_value_def
            strcasecmp_false mul_int_def Let_def elim!: run_bind_InrE split: if_split_asm prod.split_asm option.split_asm)
    next
      case False
      then show ?thesis
        using s Some SSLConf_check_openssl [OF False] by (auto simp: x gives_def given_def tomcat_command_def)
    qed
  qed
qed

interpretation no_check: setting "check_exec env" cc_no_ocsp_check "gives NO_OCSP_CHECK flag_value" for env
  by unfold_locales (auto dest!: check_exec_settings simp: given_def)

interpretation soft_fail: setting "check_exec env" cc_ocsp_soft_fail "gives OCSP_SOFT_FAIL flag_value" for env
  by unfold_locales (auto dest!: check_exec_settings simp: given_def)

interpretation timeout: setting "check_exec env" cc_ocsp_timeout "gives OCSP_TIMEOUT (number_value 1000)" for env
  by unfold_locales (auto dest!: check_exec_settings simp: given_def)

interpretation verify_flags: setting "check_exec env" cc_ocsp_verify_flags
    "gives OCSP_VERIFY_FLAGS (number_value 1)" for env
  by unfold_locales (auto dest!: check_exec_settings simp: given_def)

interpretation conf_ctx: setting "check_exec env" cc_cctx "\<lambda>_. None" for env
  by unfold_locales (auto dest!: check_exec_settings)

lemma run_checks_settings:
  assumes "run_checks env cmds c = Inr c'"
  shows "c' = c\<lparr>cc_no_ocsp_check := last_value NO_OCSP_CHECK flag_value cmds (cc_no_ocsp_check c),
                cc_ocsp_soft_fail := last_value OCSP_SOFT_FAIL flag_value cmds (cc_ocsp_soft_fail c),
                cc_ocsp_timeout := last_value OCSP_TIMEOUT (number_value 1000) cmds (cc_ocsp_timeout c),
                cc_ocsp_verify_flags :=
                  last_value OCSP_VERIFY_FLAGS (number_value 1) cmds (cc_ocsp_verify_flags c)\<rparr>"
proof -
  note r = assms [unfolded run_checks_def]
  have none: "filter (\<lambda>x. x \<noteq> None) (map (\<lambda>_. None) cmds) = []" by (induction cmds) auto
  show ?thesis
    using no_check.run_last [OF r] soft_fail.run_last [OF r] timeout.run_last [OF r]
      verify_flags.run_last [OF r] conf_ctx.run_last [OF r]
    unfolding none last_value_def by (cases c; cases c') simp
qed

section \<open>Properties\<close>

text \<open>
  C18: the OCSP settings reach the context: after any sequence of commands that \<open>check\<close>
  went through without undefined behaviour, \<open>assign\<close> gives the context for each of the four
  settings the last value that was given for it, or the value from before if there was none;
  it changes nothing else of the context, and links the \<open>SSL_CTX\<close> to the configuration.
\<close>

theorem assign_last_settings:
  assumes "run_checks env cmds c = Inr c'" and "cc_cctx c = Some p"
  shows "SSLConf_assign c' sc = Inr
    (sc\<lparr>c_no_ocsp_check := last_value NO_OCSP_CHECK flag_value cmds (cc_no_ocsp_check c),
        c_ocsp_soft_fail := last_value OCSP_SOFT_FAIL flag_value cmds (cc_ocsp_soft_fail c),
        c_ocsp_timeout := last_value OCSP_TIMEOUT (number_value 1000) cmds (cc_ocsp_timeout c),
        c_ocsp_verify_flags := last_value OCSP_VERIFY_FLAGS (number_value 1) cmds (cc_ocsp_verify_flags c)\<rparr>,
     [Conf_set_ssl_ctx p (c_ctx sc)])"
  using run_checks_settings [OF assms(1)] assms(2) by (simp add: SSLConf_assign_def)

definition sample_conf :: tcn_ssl_conf_ctxt_t where
  "sample_conf = \<lparr>cc_cctx = Some 4, cc_no_ocsp_check = 1, cc_ocsp_soft_fail = 1, cc_ocsp_timeout = 15000000,
     cc_ocsp_verify_flags = 0\<rparr>"

definition sample_conf_env :: conf_env where
  "sample_conf_env = \<lparr>e_value_type = \<lambda>_. SSL_CONF_TYPE_STRING, e_type_ec = \<lambda>_. 0, e_stat = \<lambda>_. None\<rparr>"

lemma strtol_20: "strtol (ascii ''20'') = (20, False)"
  by (simp add: strtol_def ascii_def isspace_def sign_len_def isdigit_def digits_value_def Let_def)

theorem assign_last_settings_witness:
  "\<exists>c' calls. run_checks sample_conf_env
      [(Some NO_OCSP_CHECK, Some (ascii ''true'')), (Some OCSP_TIMEOUT, Some (ascii ''20'')),
       (Some NO_OCSP_CHECK, Some (ascii ''False''))] sample_conf = Inr c' \<and>
    SSLConf_assign c' zero_ctxt = Inr (zero_ctxt\<lparr>c_no_ocsp_check := 0, c_ocsp_soft_fail := 1,
       c_ocsp_timeout := 20000, c_ocsp_verify_flags := 0\<rparr>, calls)"
proof -
  let ?cmds = "[(Some NO_OCSP_CHECK, Some (ascii ''true'')), (Some OCSP_TIMEOUT, Some (ascii ''20'')),
       (Some NO_OCSP_CHECK, Some (ascii ''False''))]"
  let ?c' = "sample_conf\<lparr>cc_no_ocsp_check := 0, cc_ocsp_timeout := 20000\<rparr>"
  have f: "strcasecmp (ascii ''False'') (ascii ''false'') = 0" "strcasecmp (ascii ''true'') (ascii ''false'') \<noteq> 0"
    unfolding strcasecmp_false by (simp_all add: ascii_def tolower_def)
  have r: "run_checks sample_conf_env ?cmds sample_conf = Inr ?c'"
    by (simp add: run_checks_def check_exec_def SSLConf_check_def f strtol_20 int_of_long_def mul_int_def Let_def
        sample_conf_def)
  have v: "last_value NO_OCSP_CHECK flag_value ?cmds (cc_no_ocsp_check sample_conf) = 0"
    "last_value OCSP_SOFT_FAIL flag_value ?cmds (cc_ocsp_soft_fail sample_conf) = 1"
    "last_value OCSP_TIMEOUT (number_value 1000) ?cmds (cc_ocsp_timeout sample_conf) = 20000"
    "last_value OCSP_VERIFY_FLAGS (number_value 1) ?cmds (cc_ocsp_verify_flags sample_conf) = 0"
    using run_checks_settings [OF r] by (simp_all add: sample_conf_def)
  have "cc_cctx sample_conf = Some 4" by (simp add: sample_conf_def)
  from assign_last_settings [OF r this, of zero_ctxt] r show ?thesis
    unfolding v by blast
qed

text \<open>
  C23: when \<open>check\<close> runs into undefined behaviour: exactly on a setting of Tomcat Native
  without a value, on a timeout whose milliseconds do not fit into an \<open>int\<close> as microseconds,
  and on any other command when the configuration has been freed.
\<close>

theorem SSLConf_check_fault_iff:
  "isl (SSLConf_check env cmd value c) \<longleftrightarrow>
     (\<exists>k. cmd = Some k \<and>
       (if tomcat_command k
        then value = None \<or> k = OCSP_TIMEOUT \<and> \<not> snd (strtol (the value)) \<and>
               (let t = int_of_long (fst (strtol (the value))) * 1000 in t < - (2 ^ 31) \<or> 2 ^ 31 \<le> t)
        else cc_cctx c = None))"
proof (cases cmd)
  case (Some k)
  show ?thesis
  proof (cases "tomcat_command k")
    case True
    with Some show ?thesis
      by (auto simp: tomcat_command_def SSLConf_check_def mul_int_def Let_def split: prod.splits)
  next
    case False
    with Some show ?thesis
      by (auto simp: tomcat_command_def SSLConf_check_def check_file_result check_dir_result)
  qed
qed (simp add: SSLConf_check_def)

text \<open>
  C21: \<open>apply\<close> hands to OpenSSL at most the one command it was given, never a setting of
  Tomcat Native, and \<open>CipherString\<close> always behind the prefix that disables NULL and export
  ciphers; an exception is thrown exactly when the result is not positive.
\<close>

theorem SSLConf_apply_forwards:
  assumes "SSLConf_apply malloc_ok answer (Some cmd) value c = Inr (rc, calls)"
  shows "(\<forall>p k arg. Conf_cmd p k arg \<in> set calls \<longleftrightarrow>
      cc_cctx c = Some p \<and> k = cmd \<and> \<not> tomcat_command cmd \<and>
      (if cmd = CipherString then malloc_ok \<and> arg = map_option (\<lambda>v. SSL_CIPHERS_ALWAYS_DISABLED @ c_str v) value
       else arg = value)) \<and>
    ((\<exists>msg. Conf_throw msg \<in> set calls) \<longleftrightarrow> rc \<le> 0)"
proof (cases "cmd = CipherString")
  case True
  obtain v where v: "value = Some v"
    using assms True by (cases "value") (auto simp: SSLConf_apply_def)
  show ?thesis
  proof (cases malloc_ok)
    case False
    then show ?thesis using assms True v by (auto simp: SSLConf_apply_def SSL_THROW_RETURN_def)
  next
    case True
    with \<open>cmd = CipherString\<close> assms v show ?thesis
      by (cases "cc_cctx c"; cases "answer cmd (Some (SSL_CIPHERS_ALWAYS_DISABLED @ c_str v))")
        (auto simp: SSLConf_apply_def cipher_buf_read c_str_cipher_buf tomcat_command_def SSL_THROW_RETURN_def
          split: if_split_asm)
  qed
next
  case False
  then show ?thesis
    using assms
    by (cases "cc_cctx c"; cases "answer cmd value")
      (auto simp: SSLConf_apply_def tomcat_command_def SSL_THROW_RETURN_def split: if_split_asm)
qed

theorem SSLConf_apply_forwards_witness:
  "\<exists>rc calls. SSLConf_apply True (\<lambda>_ _. (1, 0)) (Some CipherString) (Some [72]) sample_conf = Inr (rc, calls) \<and>
    Conf_cmd 4 CipherString (Some (SSL_CIPHERS_ALWAYS_DISABLED @ [72])) \<in> set calls"
proof -
  obtain rc calls where a: "SSLConf_apply True (\<lambda>_ _. (1, 0)) (Some CipherString) (Some [72]) sample_conf = Inr (rc, calls)"
    by (simp add: SSLConf_apply_def cipher_buf_read c_str_cipher_buf sample_conf_def)
  have "cc_cctx sample_conf = Some 4" "\<not> tomcat_command CipherString" "c_str [72] = ([72] :: byte list)"
    by (simp_all add: sample_conf_def tomcat_command_def c_str_def)
  with SSLConf_apply_forwards [OF a] have "Conf_cmd 4 CipherString (Some (SSL_CIPHERS_ALWAYS_DISABLED @ [72])) \<in> set calls"
    by simp
  with a show ?thesis by blast
qed

end
