(* ===== verification/Jni_Support.thy ===== *)
theory Jni_Support
  imports Ocsp_Http
begin

text \<open>
  The exchange of strings and exceptions with the JVM: the \<open>tcn_new_\<close> and
  \<open>tcn_get_string\<close> functions of \<^verbatim>\<open>native/src/jnilib.c\<close>, the exceptions of
  \<^verbatim>\<open>native/src/error.c\<close> and \<open>Buffer.address\<close> of \<^verbatim>\<open>native/src/bb.c\<close>; and the conversion of
  addresses to Java and back (\<^verbatim>\<open>native/include/tcn.h\<close>).

  What the JVM does is a parameter (\<open>jvm\<close>): whether it has room for local references, can
  make an array, and how it converts between bytes and strings.
\<close>

section \<open>Strings\<close>

text \<open>
  \<open>j_new_string\<close> is the constructor \<open>String(byte[])\<close>, \<open>j_get_bytes\<close> the method
  \<open>getBytes\<close>, \<open>None\<close> when it throws; \<open>j_new_utf\<close> and \<open>j_utf_chars\<close> are
  \<open>NewStringUTF\<close> and \<open>GetStringUTFChars\<close>.
\<close>

record 's jvm =
  j_capacity :: "nat \<Rightarrow> bool"
  j_new_array :: "int \<Rightarrow> bool"
  j_new_string :: "byte list \<Rightarrow> 's option"
  j_get_bytes :: "'s \<Rightarrow> byte list option"
  j_new_utf :: "byte list \<Rightarrow> 's option"
  j_utf_chars :: "'s \<Rightarrow> byte list option"

text \<open>The conversion of \<open>size_t\<close> to \<open>jsize\<close>.\<close>

definition jsize_of :: "nat \<Rightarrow> int" where
  "jsize_of n = sint (word_of_nat n :: 32 word)"

text \<open>
  The result and the number of local references that were made and not deleted. An array of
  negative size cannot be made.
\<close>

definition tcn_new_stringn :: "'s jvm \<Rightarrow> byte list option \<Rightarrow> nat \<Rightarrow> ('s option \<times> int) run" where
  "tcn_new_stringn env str l =
     (case str of
        None \<Rightarrow> Inr (None, 0)
      | Some m \<Rightarrow>
          if \<not> j_capacity env 2 then Inr (None, 0)
          else if \<not> (0 \<le> jsize_of l \<and> j_new_array env (jsize_of l)) then Inr (None, 0)
          else run_bind (rdn m 0 (nat (jsize_of l))) (\<lambda>bytes.
            let result = j_new_string env bytes in
            Inr (result, (if result = None then 0 else 1))))"

definition tcn_new_arrayb :: "'s jvm \<Rightarrow> byte list \<Rightarrow> nat \<Rightarrow> byte list option run" where
  "tcn_new_arrayb env data len =
     (if \<not> j_capacity env 1 then Inr None
      else if \<not> (0 \<le> jsize_of len \<and> j_new_array env (jsize_of len)) then Inr None
      else run_bind (rdn data 0 (nat (jsize_of len))) (\<lambda>bytes. Inr (Some bytes)))"

text \<open>An array of strings: its elements are \<open>null\<close>.\<close>

definition tcn_new_arrays :: "'s jvm \<Rightarrow> nat \<Rightarrow> 's option list option" where
  "tcn_new_arrays env len =
     (if \<not> j_capacity env 1 then None
      else if 0 \<le> jsize_of len \<and> j_new_array env (jsize_of len) then Some (replicate (nat (jsize_of len)) None)
      else None)"

definition tcn_new_string :: "'s jvm \<Rightarrow> byte list option \<Rightarrow> 's option" where
  "tcn_new_string env str =
     (case str of
        None \<Rightarrow> None
      | Some m \<Rightarrow> if \<not> j_capacity env 1 then None else j_new_utf env (c_str m))"

text \<open>
  \<open>tcn_get_string\<close>: the buffer it returns and whether it throws an APR error. The length of a Java array is an \<open>int\<close>, and so is \<open>len + 1\<close>.
\<close>

definition tcn_get_string :: "'s jvm \<Rightarrow> bool \<Rightarrow> 's \<Rightarrow> (block option \<times> bool) run" where
  "tcn_get_string env malloc_ok jstr =
     (if \<not> j_capacity env 2 then Inr (None, False)
      else
        (case j_get_bytes env jstr of
           None \<Rightarrow> Inr (None, False)
         | Some bytes \<Rightarrow>
             if 2 ^ 31 \<le> length bytes + 1 then Inl Signed_Overflow
             else if \<not> malloc_ok then Inr (None, True)
             else run_bind (wrn_cell (malloc_block (length bytes + 1)) 0 bytes) (\<lambda>result.
                  run_bind (wrn_cell result (length bytes) [0]) (\<lambda>result.
                  Inr (Some result, False)))))"

definition tcn_strdup :: "'s jvm \<Rightarrow> bool \<Rightarrow> 's \<Rightarrow> byte list option" where
  "tcn_strdup env malloc_ok jstr =
     (case j_utf_chars env jstr of None \<Rightarrow> None | Some s \<Rightarrow> if malloc_ok then Some (c_str s) else None)"

definition tcn_pstrdup :: "'s jvm \<Rightarrow> bool \<Rightarrow> 's \<Rightarrow> byte list option" where
  "tcn_pstrdup env palloc_ok jstr =
     (case j_utf_chars env jstr of None \<Rightarrow> None | Some s \<Rightarrow> if palloc_ok then Some (c_str s) else None)"

text \<open>The C string that a caller finds in a buffer.\<close>

definition block_str :: "block \<Rightarrow> byte list run" where
  "block_str b = run_bind (rdn_cell b 0 (length b)) (\<lambda>m. if 0 \<in> set m then Inr (c_str m) else Inl Out_Of_Bounds)"

text \<open>\<open>Buffer.address\<close>; the address is NULL for a buffer that is not direct.\<close>

definition Buffer_address :: "('o \<Rightarrow> nat option) \<Rightarrow> 'o \<Rightarrow> nat" where
  "Buffer_address get_direct_address bb = (case get_direct_address bb of None \<Rightarrow> 0 | Some a \<Rightarrow> a)"

text \<open>\<open>SSL.getAlpnSelected\<close>: without a protocol OpenSSL yields NULL.\<close>

definition getAlpnSelected :: "'s jvm \<Rightarrow> byte list option \<Rightarrow> bool \<Rightarrow> ('s option \<times> bool) run" where
  "getAlpnSelected env proto ssl_null =
     (if ssl_null then Inr (None, True)
      else run_bind (tcn_new_stringn env proto (case proto of None \<Rightarrow> 0 | Some p \<Rightarrow> length p)) (\<lambda>(r, refs).
        Inr (r, False)))"

section \<open>Exceptions\<close>

datatype jthrow = Throw_New string "byte list" | Stderr string | Throw_APR int "byte list"

definition tcn_ThrowException :: "bool \<Rightarrow> byte list \<Rightarrow> jthrow list" where
  "tcn_ThrowException class_found msg =
     (if \<not> class_found then [Stderr ''Cannot find java/lang/Exception class'']
      else [Throw_New ''java/lang/Exception'' msg])"

text \<open>
  \<open>tcn_Throw\<close>: \<open>formatted\<close> is what the format and its arguments make in full;
  \<open>apr_vsnprintf\<close> cuts it to the buffer.
\<close>

definition tcn_Throw :: "bool \<Rightarrow> byte list \<Rightarrow> jthrow list" where
  "tcn_Throw class_found formatted = tcn_ThrowException class_found (take (TCN_BUFFER_SZ - 1) formatted)"

definition tcn_ThrowAPRException ::
  "bool \<Rightarrow> bool \<Rightarrow> (int \<Rightarrow> byte list) \<Rightarrow> bool \<Rightarrow> bool \<Rightarrow> int \<Rightarrow> jthrow list" where
  "tcn_ThrowAPRException class_found constructor strerror description object err =
     (if \<not> class_found then [Stderr ''Cannot find class'']
      else if \<not> constructor then [Stderr ''Cannot find constructor'']
      else if \<not> description then [Stderr ''Cannot allocate description'']
      else if \<not> object then [Stderr ''Cannot allocate new object'']
      else [Throw_APR err (take 511 (strerror err))])"

text \<open>
  The search of \<open>tcn_ThrowMemoryException\<close> for the last separator of a path, backwards from
  its last character: the index of \<open>f\<close>. For an empty path the pointer starts in front of it.
\<close>

definition is_sep :: "byte \<Rightarrow> bool" where
  "is_sep b \<longleftrightarrow> b = 0x5C \<or> b = 0x2F"

primrec find_sep :: "byte list \<Rightarrow> nat \<Rightarrow> nat" where
  "find_sep m 0 = 0"
| "find_sep m (Suc i) = (if is_sep (m ! Suc i) then Suc i else find_sep m i)"

definition base_name :: "byte list \<Rightarrow> byte list run" where
  "base_name path =
     (if path = [] then Inl Out_Of_Bounds
      else
        (let f = find_sep path (length path - 1);
             f = (if f \<noteq> 0 then f + 1 else f)
         in Inr (drop f path)))"

fun decimal :: "nat \<Rightarrow> byte list" where
  "decimal n = (if n < 10 then [word_of_nat (48 + n)] else decimal (n div 10) @ [word_of_nat (48 + n mod 10)])"

declare decimal.simps [simp del]

text \<open>\<open>%04d\<close> of a line number.\<close>

definition pad4 :: "nat \<Rightarrow> byte list" where
  "pad4 n = replicate (4 - length (decimal n)) 48 @ decimal n"

definition tcn_ThrowMemoryException ::
  "bool \<Rightarrow> byte list option \<Rightarrow> nat \<Rightarrow> byte list \<Rightarrow> jthrow list run" where
  "tcn_ThrowMemoryException class_found path line msg =
     (if \<not> class_found then Inr [Stderr ''Cannot find java/lang/OutOfMemoryError'']
      else
        (case path of
           None \<Rightarrow> Inr [Throw_New ''java/lang/OutOfMemoryError'' msg]
         | Some path \<Rightarrow>
             run_bind (base_name path) (\<lambda>f.
             run_bind (wrn_cell (malloc_block TCN_BUFFER_SZ) 0
                (msg @ ascii '' for ['' @ pad4 line @ ascii ''@'' @ f @ ascii '']'' @ [0])) (\<lambda>fmt.
             run_bind (block_str (take (length (msg @ ascii '' for ['' @ pad4 line @ ascii ''@'' @ f @ ascii '']'' @ [0])) fmt))
               (\<lambda>s. Inr [Throw_New ''java/lang/OutOfMemoryError'' s])))))"

section \<open>Lemmas\<close>

lemma rdn_cell_all: "rdn_cell (map Some bs) 0 (length bs) = Inr bs"
  using rdn_cell_append [of bs "length bs" "[]" "[]"] by simp

lemma block_str_nul: "block_str (map Some (bs @ [0])) = Inr (c_str bs)"
proof -
  have "c_str (bs @ [0]) = c_str bs"
    by (induction bs) (simp_all add: c_str_def)
  then show ?thesis
    using rdn_cell_all [of "bs @ [0]"] by (simp add: block_str_def del: map_append)
qed

lemma tcn_get_string_buffer:
  assumes "j_capacity env 2" and "j_get_bytes env s = Some bytes" and "length bytes < 2 ^ 31 - 1"
  shows "tcn_get_string env True s = Inr (Some (map Some (bytes @ [0])), False)"
proof -
  have 1: "wrn_cell (malloc_block (length bytes + 1)) 0 bytes = Inr (map Some bytes @ replicate 1 None)"
    using wrn_cell_append [of bytes "length bytes + 1" "[]"] by (simp add: malloc_block_def)
  have 2: "wrn_cell (map Some bytes @ replicate 1 None) (length bytes) [0] = Inr (map Some bytes @ [Some 0])"
    using wrn_cell_append [of "[0]" 1 "map Some bytes"] by simp
  show ?thesis
    unfolding tcn_get_string_def using assms 1 2 by simp
qed

lemma jsize_of_small: "n < 2 ^ 31 \<Longrightarrow> jsize_of n = int n"
  by (simp add: jsize_of_def signed_of_nat signed_take_bit_int_eq_self)

text \<open>The last component of a path, as it should be, and what the search makes of it.\<close>

definition last_component :: "byte list \<Rightarrow> byte list" where
  "last_component path = rev (takeWhile (\<lambda>b. \<not> is_sep b) (rev path))"

lemma find_sep_Some:
  "find_sep m i \<noteq> 0 \<Longrightarrow> find_sep m i \<le> i \<and> is_sep (m ! find_sep m i) \<and>
    (\<forall>j. find_sep m i < j \<and> j \<le> i \<longrightarrow> \<not> is_sep (m ! j))"
proof (induction i)
  case (Suc i)
  then show ?case
  proof (cases "is_sep (m ! Suc i)")
    case False
    with Suc show ?thesis by (auto simp: le_Suc_eq)
  qed simp
qed simp

lemma find_sep_0: "find_sep m i = 0 \<Longrightarrow> 0 < j \<Longrightarrow> j \<le> i \<Longrightarrow> \<not> is_sep (m ! j)"
  by (induction i) (auto simp: le_Suc_eq split: if_split_asm)

lemma last_component_split:
  assumes "is_sep b" and "\<forall>x \<in> set ys. \<not> is_sep x"
  shows "last_component (xs @ b # ys) = ys"
proof -
  have "takeWhile (\<lambda>b. \<not> is_sep b) (rev ys @ b # rev xs) = rev ys"
    using assms by (subst takeWhile_append2) auto
  then show ?thesis by (simp add: last_component_def)
qed

lemma base_name_result:
  assumes "path \<noteq> []"
  shows "base_name path = Inr (if \<exists>b \<in> set (tl path). is_sep b then last_component path else path)"
proof -
  let ?k = "length path - 1"
  let ?f = "find_sep path ?k"
  have l: "length path = Suc ?k" using assms by (cases path) auto
  show ?thesis
  proof (cases "?f = 0")
    case True
    have "\<not> is_sep b" if b: "b \<in> set (tl path)" for b
    proof -
      from b obtain j where j: "j < length (tl path)" "tl path ! j = b" by (auto simp: in_set_conv_nth)
      then have "b = path ! Suc j" by (simp add: nth_tl)
      then show ?thesis using find_sep_0 [OF True, of "Suc j"] j(1) by simp
    qed
    then show ?thesis using assms True by (auto simp: base_name_def)
  next
    case False
    note f = find_sep_Some [OF False]
    have split: "path = take ?f path @ path ! ?f # drop (Suc ?f) path"
      using f l by (simp add: id_take_nth_drop)
    have "\<forall>x \<in> set (drop (Suc ?f) path). \<not> is_sep x"
    proof
      fix x assume "x \<in> set (drop (Suc ?f) path)"
      then obtain j where j: "j < length path - Suc ?f" "path ! (Suc ?f + j) = x"
        by (auto simp: in_set_conv_nth)
      have "?f < Suc ?f + j \<and> Suc ?f + j \<le> ?k" using j(1) l by linarith
      then show "\<not> is_sep x" using f j(2) by metis
    qed
    then have "last_component path = drop (Suc ?f) path"
      using last_component_split [of "path ! ?f" "drop (Suc ?f) path" "take ?f path"] f split by simp
    moreover have "path ! ?f \<in> set (tl path)"
    proof -
      obtain g where g: "?f = Suc g" using False not0_implies_Suc by blast
      then have "g < length (tl path)" using f l by simp
      then show ?thesis unfolding g by (metis nth_mem nth_tl)
    qed
    ultimately show ?thesis using assms False f by (auto simp: base_name_def)
  qed
qed

text \<open>The message for a line of a file.\<close>

definition memory_message :: "byte list \<Rightarrow> nat \<Rightarrow> byte list \<Rightarrow> byte list" where
  "memory_message msg line f = msg @ ascii '' for ['' @ pad4 line @ ascii ''@'' @ f @ ascii '']''"

lemma decimal_no_nul: "0 \<notin> set (decimal n)"
proof (induction n rule: decimal.induct)
  case (1 n)
  have nz: "0 \<noteq> (word_of_nat (48 + d) :: byte)" if "d < 10" for d
  proof -
    have "unat (word_of_nat (48 + d) :: byte) = 48 + d"
      using that unat_of_nat [of "48 + d", where ?'a = 8] by simp
    then show ?thesis by (metis add_is_0 unsigned_0 zero_neq_numeral)
  qed
  show ?case
    using 1 nz [of n] nz [of "n mod 10"] by (subst decimal.simps) (simp del: of_nat_add)
qed

lemma memory_message_no_nul:
  "0 \<notin> set msg \<Longrightarrow> 0 \<notin> set f \<Longrightarrow> 0 \<notin> set (memory_message msg line f)"
  using decimal_no_nul [of line] by (auto simp: memory_message_def pad4_def ascii_def)

lemma ThrowMemory_write:
  assumes "length m < TCN_BUFFER_SZ"
  shows "run_bind (wrn_cell (malloc_block TCN_BUFFER_SZ) 0 (m @ [0])) (\<lambda>fmt. block_str (take (length (m @ [0])) fmt))
    = Inr (c_str m)"
proof -
  have "wrn_cell (malloc_block TCN_BUFFER_SZ) 0 (m @ [0])
      = Inr (map Some (m @ [0]) @ replicate (TCN_BUFFER_SZ - length (m @ [0])) None)"
    using wrn_cell_append [of "m @ [0]" TCN_BUFFER_SZ "[]"] assms by (simp add: malloc_block_def)
  then show ?thesis
    using block_str_nul [of m] by simp
qed

section \<open>Properties\<close>

text \<open>
  A string made for Java from bytes comes back as the same C string: if Java's default
  character set converts the bytes back and forth, then the buffer that \<open>tcn_get_string\<close>
  returns for the string of \<open>tcn_new_stringn\<close> is one byte longer than the bytes, fully
  initialised, and holds them up to the first NUL; no local reference but the string is left.
\<close>

theorem string_round_trip:
  assumes "j_capacity env 2" and "j_new_array env (int l)" and "l \<le> length m" and "l < 2 ^ 31 - 1"
    and "j_new_string env (take l m) = Some s" and "j_get_bytes env s = Some (take l m)"
  shows "tcn_new_stringn env (Some m) l = Inr (Some s, 1) \<and>
    (\<exists>b. tcn_get_string env True s = Inr (Some b, False) \<and> length b = l + 1 \<and> block_str b = Inr (c_str (take l m)))"
proof -
  have j: "jsize_of l = int l" using assms(4) by (simp add: jsize_of_small)
  have "tcn_new_stringn env (Some m) l = Inr (Some s, 1)"
    using assms j by (simp add: tcn_new_stringn_def rdn_def)
  moreover have "tcn_get_string env True s = Inr (Some (map Some (take l m @ [0])), False)"
    using assms by (intro tcn_get_string_buffer) auto
  ultimately show ?thesis
    using block_str_nul [of "take l m"] assms(3) by auto
qed

definition sample_jvm :: "byte list jvm" where
  "sample_jvm = \<lparr>j_capacity = \<lambda>_. True, j_new_array = \<lambda>_. True, j_new_string = Some, j_get_bytes = Some,
     j_new_utf = Some, j_utf_chars = Some\<rparr>"

theorem string_round_trip_witness:
  "\<exists>b. tcn_new_stringn sample_jvm (Some [104, 50, 0, 9]) 2 = Inr (Some [104, 50], 1) \<and>
    tcn_get_string sample_jvm True [104, 50] = Inr (Some b, False) \<and> block_str b = Inr [104, 50]"
proof -
  have t: "take 2 [104, 50, 0, 9] = ([104, 50] :: byte list)" "c_str [104, 50] = ([104, 50] :: byte list)"
    by (simp_all add: c_str_def)
  show ?thesis
    using string_round_trip [of sample_jvm 2 "[104, 50, 0, 9]" "[104, 50]"]
    by (auto simp: sample_jvm_def t)
qed

text \<open>
  C22: the exception for exhausted memory names the last component of the file and the line; the
  backward search equals the specification except that a separator at the very start of the path
  does not count. The fixed buffer is large enough exactly when the message has fewer than
  8192 bytes, and an empty file name is read in front of its start.
\<close>

theorem tcn_ThrowMemoryException_result:
  assumes "0 \<notin> set msg" and "0 \<notin> set path"
  shows "tcn_ThrowMemoryException True (Some path) line msg =
    (let f = (if \<exists>b \<in> set (tl path). is_sep b then last_component path else path) in
     if path = [] \<or> TCN_BUFFER_SZ \<le> length (memory_message msg line f) then Inl Out_Of_Bounds
     else Inr [Throw_New ''java/lang/OutOfMemoryError'' (memory_message msg line f)])"
proof (cases "path = []")
  case True
  then show ?thesis by (simp add: tcn_ThrowMemoryException_def base_name_def)
next
  case False
  define f where "f = (if \<exists>b \<in> set (tl path). is_sep b then last_component path else path)"
  have b: "base_name path = Inr f"
    unfolding f_def by (rule base_name_result [OF False])
  have "set f \<subseteq> set path"
    by (auto simp: f_def last_component_def dest: set_takeWhileD)
  then have n: "0 \<notin> set (memory_message msg line f)"
    using assms by (intro memory_message_no_nul) auto
  let ?m = "memory_message msg line f"
  have m: "msg @ ascii '' for ['' @ pad4 line @ ascii ''@'' @ f @ ascii '']'' @ [0] = ?m @ [0]"
    by (simp add: memory_message_def)
  have "tcn_ThrowMemoryException True (Some path) line msg =
    run_bind (run_bind (wrn_cell (malloc_block TCN_BUFFER_SZ) 0 (?m @ [0])) (\<lambda>fmt. block_str (take (length (?m @ [0])) fmt)))
      (\<lambda>s. Inr [Throw_New ''java/lang/OutOfMemoryError'' s])"
    unfolding tcn_ThrowMemoryException_def m [symmetric] by (simp add: b run_bind_assoc)
  also have "\<dots> = (if TCN_BUFFER_SZ \<le> length ?m then Inl Out_Of_Bounds
     else Inr [Throw_New ''java/lang/OutOfMemoryError'' ?m])"
    using ThrowMemory_write [of ?m] n by (auto simp: wrn_cell_overflow c_str_id)
  finally show ?thesis using False by (simp add: f_def [symmetric] Let_def)
qed

theorem tcn_ThrowMemoryException_result_witness:
  "tcn_ThrowMemoryException True (Some (ascii ''src/pool.c'')) 7 (ascii ''failed'')
     = Inr [Throw_New ''java/lang/OutOfMemoryError'' (ascii ''failed for [0007@pool.c]'')]"
proof -
  have n: "0 \<notin> set (ascii ''failed'')" "0 \<notin> set (ascii ''src/pool.c'')"
    by (simp_all add: ascii_def)
  have s: "\<exists>b \<in> set (tl (ascii ''src/pool.c'')). is_sep b" "last_component (ascii ''src/pool.c'') = ascii ''pool.c''"
    by (simp_all add: ascii_def is_sep_def last_component_def)
  have d: "decimal 7 = [55]"
    by (subst decimal.simps) simp
  have "pad4 7 = [48, 48, 48, 55]"
    by (simp add: pad4_def d numeral_3_eq_3)
  then have m: "memory_message (ascii ''failed'') 7 (ascii ''pool.c'') = ascii ''failed for [0007@pool.c]''"
    by (simp add: memory_message_def ascii_def)
  have l: "length (ascii ''failed for [0007@pool.c]'') < TCN_BUFFER_SZ" "ascii ''src/pool.c'' \<noteq> []"
    by (simp_all add: ascii_def TCN_BUFFER_SZ_def)
  show ?thesis
    using tcn_ThrowMemoryException_result [OF n, of 7] s l by (simp add: m Let_def)
qed

section \<open>Addresses in Java\<close>

text \<open>
  \<open>P2J\<close> and \<open>J2P\<close> convert between pointers and \<open>jlong\<close>, by way of \<open>long\<close> except on Windows.
  The widths of pointers and of \<open>long\<close> are the type variables \<open>'p\<close> and \<open>'l\<close>; a conversion to
  a wider type extends the sign.
\<close>

definition P2J :: "'l::len itself \<Rightarrow> 'p::len word \<Rightarrow> 64 word" where
  "P2J long p = scast (scast p :: 'l word)"

definition J2P :: "'l::len itself \<Rightarrow> 64 word \<Rightarrow> 'p::len word" where
  "J2P long j = scast (scast j :: 'l word)"

definition P2J_WIN32 :: "'p::len word \<Rightarrow> 64 word" where
  "P2J_WIN32 p = scast p"

definition J2P_WIN32 :: "64 word \<Rightarrow> 'p::len word" where
  "J2P_WIN32 j = scast j"

lemma scast_scast_up: "LENGTH('a::len) \<le> LENGTH('b::len) \<Longrightarrow> scast (scast (w :: 'a word) :: 'b word) = w"
  by (rule scast_up_scast_id) (simp add: is_up)



text \<open>With a \<open>long\<close> that is narrower than a pointer, as on Windows, the other macros would not do.\<close>

lemma handles_need_long:
  "J2P TYPE(32) (P2J TYPE(32) (0x100000000 :: 64 word)) \<noteq> (0x100000000 :: 64 word)"
  by (simp add: J2P_def P2J_def)

end
