(* ===== verification/Bio_Java.thy ===== *)
theory Bio_Java
  imports Ssl_Context
begin

text \<open>
  BIOs in \<^verbatim>\<open>native/src/ssl.c\<close>: the BIO methods that call back into Java (\<open>jbs_new\<close>,
  \<open>jbs_free\<close>, \<open>jbs_write\<close>, \<open>jbs_read\<close>, \<open>jbs_puts\<close>, \<open>jbs_gets\<close>,
  \<open>jbs_ctrl\<close>), the counting of references in \<open>SSL_BIO_doref\<close> and \<open>SSL_BIO_close\<close>, and
  what these make of the BIOs of a context.

  BIOs live in a heap of their own. OpenSSL counts references to a BIO as well; the model is
  that of BIOs to which there is one such reference, so that \<open>BIO_free\<close> destroys them.
\<close>

unbundle bit_operations_syntax

section \<open>The heap of BIOs\<close>

text \<open>\<open>BIO_JAVA\<close>: the callback object is a global reference, \<open>None\<close> until it is set.\<close>

record bio_java =
  bj_refcount :: int
  bj_pool :: bool
  bj_obj :: "ptr option"

text \<open>What \<open>BIO_get_data\<close> finds: data of the Java BIO or of another kind of BIO.\<close>

datatype bio_data = No_Data | Java_Data bio_java | Other_Data

record bio =
  bi_data :: bio_data
  bi_flags :: "32 word"
  bi_init :: bool
  bi_shutdown :: bool
  bi_jbs :: bool

type_synonym bio_heap = "ptr \<Rightarrow> bio option"

text \<open>The flags of \<^verbatim>\<open>ssl_private.h\<close> and of OpenSSL's \<^verbatim>\<open>bio.h\<close>.\<close>

definition SSL_BIO_FLAG_CALLBACK :: "32 word" where "SSL_BIO_FLAG_CALLBACK = push_bit 1 1"
definition BIO_FLAGS_READ :: "32 word" where "BIO_FLAGS_READ = 1"
definition BIO_FLAGS_WRITE :: "32 word" where "BIO_FLAGS_WRITE = 2"
definition BIO_FLAGS_IO_SPECIAL :: "32 word" where "BIO_FLAGS_IO_SPECIAL = 4"
definition BIO_FLAGS_SHOULD_RETRY :: "32 word" where "BIO_FLAGS_SHOULD_RETRY = 8"

definition retry_flags :: "32 word" where
  "retry_flags = BIO_FLAGS_READ OR BIO_FLAGS_WRITE OR BIO_FLAGS_IO_SPECIAL OR BIO_FLAGS_SHOULD_RETRY"

lemmas bio_flags = SSL_BIO_FLAG_CALLBACK_def BIO_FLAGS_READ_def BIO_FLAGS_WRITE_def
  BIO_FLAGS_IO_SPECIAL_def BIO_FLAGS_SHOULD_RETRY_def retry_flags_def

definition BIO_test_flags :: "bio \<Rightarrow> 32 word \<Rightarrow> bool" where
  "BIO_test_flags b flags \<longleftrightarrow> bi_flags b AND flags \<noteq> 0"

definition BIO_clear_retry_flags :: "bio \<Rightarrow> bio" where
  "BIO_clear_retry_flags b = b\<lparr>bi_flags := bi_flags b AND NOT retry_flags\<rparr>"

definition BIO_set_retry_write :: "bio \<Rightarrow> bio" where
  "BIO_set_retry_write b = b\<lparr>bi_flags := bi_flags b OR (BIO_FLAGS_WRITE OR BIO_FLAGS_SHOULD_RETRY)\<rparr>"

definition BIO_set_retry_read :: "bio \<Rightarrow> bio" where
  "BIO_set_retry_read b = b\<lparr>bi_flags := bi_flags b OR (BIO_FLAGS_READ OR BIO_FLAGS_SHOULD_RETRY)\<rparr>"

definition the_bio :: "bio_heap \<Rightarrow> ptr \<Rightarrow> bio run" where
  "the_bio h p = (case h p of None \<Rightarrow> Inl Use_After_Free | Some b \<Rightarrow> Inr b)"

section \<open>Creation and destruction\<close>

definition jbs_new :: "bool \<Rightarrow> bio \<Rightarrow> bool \<times> bio" where
  "jbs_new malloc_ok bi =
     (if \<not> malloc_ok then (False, bi)
      else (True, bi\<lparr>bi_shutdown := True, bi_init := False,
                     bi_data := Java_Data \<lparr>bj_refcount = 1, bj_pool = False, bj_obj = None\<rparr>\<rparr>))"

text \<open>The result, the BIO afterwards, and the global reference that is deleted.\<close>

definition jbs_free :: "bio option \<Rightarrow> (bool \<times> bio option \<times> ptr option) run" where
  "jbs_free bi =
     (case bi of
        None \<Rightarrow> Inr (False, None, None)
      | Some b \<Rightarrow>
          (case bi_data b of
             No_Data \<Rightarrow> Inr (True, Some (b\<lparr>bi_data := No_Data\<rparr>), None)
           | Other_Data \<Rightarrow> Inl Wrong_Type
           | Java_Data j \<Rightarrow>
               if bi_init b
               then (case bj_obj j of
                       None \<Rightarrow> Inl Uninitialised
                     | Some obj \<Rightarrow> Inr (True, Some (b\<lparr>bi_init := False, bi_data := No_Data\<rparr>), Some obj))
               else Inr (True, Some (b\<lparr>bi_data := No_Data\<rparr>), None)))"

text \<open>\<open>BIO_free\<close> calls the destructor of a Java BIO.\<close>

definition BIO_free :: "bio_heap \<Rightarrow> ptr \<Rightarrow> bio_heap run" where
  "BIO_free h p =
     run_bind (the_bio h p) (\<lambda>b.
     run_bind (if bi_jbs b then jbs_free (Some b) else Inr (True, Some b, None)) (\<lambda>_.
     Inr (h(p := None))))"

definition SSL_freeBIO :: "bio_heap \<Rightarrow> ptr option \<Rightarrow> bio_heap run" where
  "SSL_freeBIO h bio = (case bio of None \<Rightarrow> Inr h | Some p \<Rightarrow> BIO_free h p)"

definition generic_bio_cleanup :: "bio_heap \<Rightarrow> ptr option \<Rightarrow> bio_heap run" where
  "generic_bio_cleanup h b = (case b of None \<Rightarrow> Inr h | Some p \<Rightarrow> BIO_free h p)"

section \<open>References\<close>

text \<open>The data of a BIO whose flag is set is taken for a \<open>BIO_JAVA\<close>, whatever it is.\<close>

definition SSL_BIO_close :: "bio_heap \<Rightarrow> ptr option \<Rightarrow> bio_heap run" where
  "SSL_BIO_close h bi =
     (case bi of
        None \<Rightarrow> Inr h
      | Some p \<Rightarrow>
          run_bind (the_bio h p) (\<lambda>b.
          if bi_data b \<noteq> No_Data \<and> BIO_test_flags b SSL_BIO_FLAG_CALLBACK then
            (case bi_data b of
               Java_Data j \<Rightarrow>
                 (let j = j\<lparr>bj_refcount := bj_refcount j - 1\<rparr>;
                      h = h(p \<mapsto> b\<lparr>bi_data := Java_Data j\<rparr>)
                  in if bj_refcount j = 0
                     then (if bj_pool j then generic_bio_cleanup h (Some p) else BIO_free h p)
                     else Inr h)
             | _ \<Rightarrow> Inl Wrong_Type)
          else BIO_free h p))"

definition SSL_BIO_doref :: "bio_heap \<Rightarrow> ptr option \<Rightarrow> bio_heap run" where
  "SSL_BIO_doref h bi =
     (case bi of
        None \<Rightarrow> Inr h
      | Some p \<Rightarrow>
          run_bind (the_bio h p) (\<lambda>b.
          if bi_data b \<noteq> No_Data \<and> BIO_test_flags b SSL_BIO_FLAG_CALLBACK then
            (case bi_data b of
               Java_Data j \<Rightarrow>
                 Inr (h(p \<mapsto> b\<lparr>bi_data := Java_Data (j\<lparr>bj_refcount := bj_refcount j + 1\<rparr>)\<rparr>))
             | _ \<Rightarrow> Inl Wrong_Type)
          else Inr h))"

section \<open>Input and output by Java\<close>

text \<open>
  \<open>answer\<close> is what the Java method returns for the array it is given; \<open>array_ok\<close> says
  whether the array could be made. The results are the return value, the BIO and the bytes
  handed to Java.
\<close>

definition java_obj :: "bio \<Rightarrow> ptr run" where
  "java_obj b =
     (case bi_data b of
        Java_Data j \<Rightarrow> (case bj_obj j of None \<Rightarrow> Inl Uninitialised | Some obj \<Rightarrow> Inr obj)
      | No_Data \<Rightarrow> Inl Null_Deref | Other_Data \<Rightarrow> Inl Wrong_Type)"

definition jbs_write ::
  "(int \<Rightarrow> bool) \<Rightarrow> (byte list \<Rightarrow> int) \<Rightarrow> bio \<Rightarrow> byte list option \<Rightarrow> int \<Rightarrow> (int \<times> bio \<times> byte list option) run" where
  "jbs_write array_ok answer b inp inl =
     run_bind
       (case inp of
          None \<Rightarrow> Inr (-1, b, None)
        | Some m \<Rightarrow>
            if bi_init b \<and> 0 \<le> inl \<and> array_ok inl then
              run_bind (java_obj b) (\<lambda>obj.
              run_bind (rdn m 0 (nat inl)) (\<lambda>bytes.
              Inr (answer bytes, BIO_clear_retry_flags b, Some bytes)))
            else Inr (-1, b, None))
       (\<lambda>(ret, b, sent). if ret = 0 then Inr (-1, BIO_set_retry_write b, sent) else Inr (ret, b, sent))"

text \<open>
  \<open>answer outl\<close> is what Java returns and what it left in the array of \<open>outl\<close> bytes; \<open>out\<close>
  is the buffer of the caller.
\<close>

definition jbs_read ::
  "(int \<Rightarrow> bool) \<Rightarrow> (int \<Rightarrow> int \<times> byte list) \<Rightarrow> bio \<Rightarrow> block option \<Rightarrow> int \<Rightarrow> (int \<times> bio \<times> block option) run" where
  "jbs_read array_ok answer b out outl =
     (case out of
        None \<Rightarrow> Inr (0, b, None)
      | Some m \<Rightarrow>
          if bi_init b \<and> 0 \<le> outl \<and> array_ok outl then
            run_bind (java_obj b) (\<lambda>obj.
            let b = BIO_clear_retry_flags b; (ret, jout) = answer outl in
            if ret > 0 then
              run_bind (rdn jout 0 (nat ret)) (\<lambda>bytes.
              run_bind (wrn_cell m 0 bytes) (\<lambda>m. Inr (ret, b, Some m)))
            else if outl \<noteq> 0 then Inr (-1, BIO_set_retry_read b, Some m)
            else Inr (ret, b, Some m))
          else Inr (0, b, Some m))"

definition jbs_puts :: "(byte list \<Rightarrow> int) \<Rightarrow> bio \<Rightarrow> byte list option \<Rightarrow> int run" where
  "jbs_puts answer b inp =
     (case inp of
        None \<Rightarrow> Inr 0
      | Some s \<Rightarrow> if bi_init b then run_bind (java_obj b) (\<lambda>obj. Inr (answer (c_str s))) else Inr 0)"

text \<open>Java returns a string or \<open>null\<close>; its characters are a C string, or cannot be had.\<close>

definition jbs_gets ::
  "(int \<Rightarrow> byte list option option) \<Rightarrow> bio \<Rightarrow> block option \<Rightarrow> int \<Rightarrow> (int \<times> block option) run" where
  "jbs_gets answer b out outl =
     (case out of
        None \<Rightarrow> Inr (0, None)
      | Some m \<Rightarrow>
          if bi_init b then
            run_bind (java_obj b) (\<lambda>obj.
            if outl = - (2 ^ 31) then Inl Signed_Overflow
            else
              (case answer (outl - 1) of
                 Some (Some s) \<Rightarrow>
                   if int (strlen s) < outl
                   then run_bind (wrn_cell m 0 (c_str s @ [0])) (\<lambda>m. Inr (outl, Some m))
                   else Inr (0, Some m)
               | _ \<Rightarrow> Inr (0, Some m)))
          else Inr (0, Some m))"

definition BIO_CTRL_FLUSH :: int where "BIO_CTRL_FLUSH = 11"

definition jbs_ctrl :: "int \<Rightarrow> int" where
  "jbs_ctrl cmd = (if cmd = BIO_CTRL_FLUSH then 1 else 0)"

section \<open>The BIOs of a context\<close>

text \<open>What the calls of the context operations do to the BIOs.\<close>

fun bio_effects :: "call list \<Rightarrow> bio_heap \<Rightarrow> bio_heap run" where
  "bio_effects [] h = Inr h"
| "bio_effects (call.SSL_BIO_close p # calls) h = run_bind (SSL_BIO_close h (Some p)) (bio_effects calls)"
| "bio_effects (call.SSL_BIO_doref p # calls) h = run_bind (SSL_BIO_doref h p) (bio_effects calls)"
| "bio_effects (_ # calls) h = bio_effects calls h"

lemma bio_effects_append:
  "bio_effects (calls @ calls') h = run_bind (bio_effects calls h) (bio_effects calls')"
proof (induction calls h rule: bio_effects.induct)
  case (2 p calls h)
  then show ?case by (cases "SSL_BIO_close h (Some p)") auto
next
  case (3 p calls h)
  then show ?case by (cases "SSL_BIO_doref h p") auto
qed auto

text \<open>A BIO that is not counted: it has no data, or its callback flag is clear.\<close>

definition plain :: "bio \<Rightarrow> bool" where
  "plain b \<longleftrightarrow> \<not> bi_jbs b \<and> (bi_data b = No_Data \<or> \<not> BIO_test_flags b SSL_BIO_FLAG_CALLBACK)"

definition plain_at :: "bio_heap \<Rightarrow> ptr \<Rightarrow> bool" where
  "plain_at h p \<longleftrightarrow> (\<exists>b. h p = Some b \<and> plain b)"

lemma plain_close: "plain_at h p \<Longrightarrow> SSL_BIO_close h (Some p) = Inr (h(p := None))"
  by (auto simp: plain_at_def plain_def SSL_BIO_close_def the_bio_def BIO_free_def)

lemma plain_doref: "plain_at h p \<Longrightarrow> SSL_BIO_doref h (Some p) = Inr h"
  by (auto simp: plain_at_def plain_def SSL_BIO_doref_def the_bio_def)

lemma gone_close: "h p = None \<Longrightarrow> SSL_BIO_close h (Some p) = Inl Use_After_Free"
  by (simp add: SSL_BIO_close_def the_bio_def)

lemma plain_at_upd: "q \<noteq> p \<Longrightarrow> plain_at (h(p := None)) q = plain_at h q"
  by (simp add: plain_at_def)

text \<open>Closing what a field of the context held.\<close>

definition close_field :: "ptr option \<Rightarrow> bio_heap \<Rightarrow> bio_heap" where
  "close_field f h = (case f of None \<Rightarrow> h | Some p \<Rightarrow> h(p := None))"

lemma free_field:
  "(case f of None \<Rightarrow> True | Some p \<Rightarrow> plain_at h p) \<Longrightarrow>
   bio_effects (free_opt call.SSL_BIO_close f) h = Inr (close_field f h)"
  by (cases f) (auto simp: free_opt_def close_field_def plain_close)

text \<open>The calls that concern BIOs are all that matters.\<close>

definition bio_call :: "call \<Rightarrow> bool" where
  "bio_call k \<longleftrightarrow> (case k of call.SSL_BIO_close _ \<Rightarrow> True | call.SSL_BIO_doref _ \<Rightarrow> True | _ \<Rightarrow> False)"

lemma bio_effects_filter: "bio_effects (filter bio_call calls) h = bio_effects calls h"
proof (induction calls h rule: bio_effects.induct)
  case (2 p calls h)
  then show ?case by (cases "SSL_BIO_close h (Some p)") (auto simp: bio_call_def)
next
  case (3 p calls h)
  then show ?case by (cases "SSL_BIO_doref h p") (auto simp: bio_call_def)
qed (auto simp: bio_call_def)

lemma bio_call_free_opt [simp]:
  "filter bio_call (free_opt SSL_CTX_free c) = []"
  "filter bio_call (free_opt X509_free c) = []"
  "filter bio_call (free_opt EVP_PKEY_free c) = []"
  "filter bio_call (free_opt Delete_Global_Ref c) = []"
  "filter bio_call (free_opt call.SSL_BIO_close c) = free_opt call.SSL_BIO_close c"
  by (simp_all add: free_opt_def bio_call_def split: option.split)

lemma bio_call_free_pairs [simp]: "filter bio_call (free_pairs xs ks) = []"
  by (induction xs ks rule: free_pairs.induct) simp_all

text \<open>The cleanup of a context closes \<open>bio_is\<close> and then \<open>bio_os\<close>.\<close>

lemma cleanup_effects:
  "bio_effects (snd (ssl_context_cleanup c)) h =
     run_bind (bio_effects (free_opt call.SSL_BIO_close (c_bio_is c)) h)
       (bio_effects (free_opt call.SSL_BIO_close (c_bio_os c)))"
proof -
  have "filter bio_call (snd (ssl_context_cleanup c))
      = free_opt call.SSL_BIO_close (c_bio_is c) @ free_opt call.SSL_BIO_close (c_bio_os c)"
    by (simp add: ssl_context_cleanup_def) (simp add: bio_call_def)
  then show ?thesis
    using bio_effects_filter [of "snd (ssl_context_cleanup c)" h] by (simp add: bio_effects_append)
qed

text \<open>
  A sequence of \<open>setBIO\<close> with the calls it makes. The invariant: what the context holds is
  alive and not held twice.
\<close>

primrec setBIOs :: "(ptr \<times> int) list \<Rightarrow> tcn_ssl_ctxt_t \<Rightarrow> tcn_ssl_ctxt_t \<times> call list" where
  "setBIOs [] c = (c, [])"
| "setBIOs (x # xs) c =
     (let (c, k) = setBIO (Some (fst x)) (snd x) c; (c, k') = setBIOs xs c in (c, k @ k'))"

definition held_bios :: "tcn_ssl_ctxt_t \<Rightarrow> ptr set" where
  "held_bios c = set_option (c_bio_os c) \<union> set_option (c_bio_is c)"

definition bios_ok :: "tcn_ssl_ctxt_t \<Rightarrow> bio_heap \<Rightarrow> bool" where
  "bios_ok c h \<longleftrightarrow> (\<forall>p \<in> held_bios c. plain_at h p) \<and> (c_bio_os c = None \<or> c_bio_os c \<noteq> c_bio_is c)"

text \<open>One \<open>setBIO\<close> of a new BIO frees what the field held and nothing else.\<close>

lemma setBIO_effects:
  assumes ok: "bios_ok c h" and p: "plain_at h p" "p \<notin> held_bios c" and d: "dir \<in> {0, 1}"
  shows "\<exists>h'. bio_effects (snd (setBIO (Some p) dir c)) h = Inr h' \<and> bios_ok (fst (setBIO (Some p) dir c)) h' \<and>
    held_bios (fst (setBIO (Some p) dir c)) \<subseteq> insert p (held_bios c) \<and>
    (\<forall>q. h' q = (if q \<in> insert p (held_bios c) - held_bios (fst (setBIO (Some p) dir c)) then None else h q))"
proof -
  define old where "old = (if dir = 0 then c_bio_os c else c_bio_is c)"
  have old: "old \<noteq> Some p" "case old of None \<Rightarrow> True | Some q \<Rightarrow> plain_at h q"
    using ok p(2) by (auto simp: old_def held_bios_def bios_ok_def split: option.split)
  have "snd (setBIO (Some p) dir c) = free_opt call.SSL_BIO_close old @ [call.SSL_BIO_doref (Some p)]"
    using d old(1) by (auto simp: setBIO_def old_def free_opt_def split: option.split)
  moreover have "plain_at (close_field old h) p"
    using old(1) p(1) by (cases old) (auto simp: close_field_def plain_at_def)
  ultimately have e: "bio_effects (snd (setBIO (Some p) dir c)) h = Inr (close_field old h)"
    using old(2) by (simp add: bio_effects_append free_field plain_doref)
  show ?thesis
    using ok p d old(1) unfolding e
    by (cases "dir = 0"; cases old)
      (auto simp: setBIO_def old_def held_bios_def bios_ok_def close_field_def plain_at_def)
qed

lemma setBIOs_effects:
  "bios_ok c h \<Longrightarrow> distinct (map fst ops) \<Longrightarrow> \<forall>(p, dir) \<in> set ops. plain_at h p \<and> p \<notin> held_bios c \<and> dir \<in> {0, 1} \<Longrightarrow>
   \<exists>h'. bio_effects (snd (setBIOs ops c)) h = Inr h' \<and> bios_ok (fst (setBIOs ops c)) h' \<and>
     held_bios (fst (setBIOs ops c)) \<subseteq> held_bios c \<union> fst ` set ops \<and>
     (\<forall>q. h' q = (if q \<in> (held_bios c \<union> fst ` set ops) - held_bios (fst (setBIOs ops c)) then None else h q))"
proof (induction ops arbitrary: c h)
  case (Cons x ops)
  obtain p dir where x: "x = (p, dir)" by fastforce
  have p: "plain_at h p" "p \<notin> held_bios c" "dir \<in> {0, 1}"
    using Cons.prems(3) by (auto simp: x)
  obtain c1 k1 where s1: "setBIO (Some p) dir c = (c1, k1)" by fastforce
  obtain h1 where h1: "bio_effects k1 h = Inr h1" "bios_ok c1 h1" "held_bios c1 \<subseteq> insert p (held_bios c)"
      "\<And>q. h1 q = (if q \<in> insert p (held_bios c) - held_bios c1 then None else h q)"
    using setBIO_effects [OF Cons.prems(1) p] s1 by auto
  obtain c2 k2 where s2: "setBIOs ops c1 = (c2, k2)" by fastforce
  have "plain_at h1 q \<and> q \<notin> held_bios c1 \<and> d \<in> {0, 1}" if q: "(q, d) \<in> set ops" for q d
  proof -
    have "q \<noteq> p" using Cons.prems(2) q by (auto simp: x image_iff)
    moreover have "plain_at h q" "q \<notin> held_bios c" "d \<in> {0, 1}" using Cons.prems(3) q by auto
    ultimately show ?thesis using h1(3,4) by (auto simp: plain_at_def)
  qed
  with Cons.IH [of c1 h1] h1(2) Cons.prems(2) s2
  obtain h2 where h2: "bio_effects k2 h1 = Inr h2" "bios_ok c2 h2" "held_bios c2 \<subseteq> held_bios c1 \<union> fst ` set ops"
      "\<And>q. h2 q = (if q \<in> (held_bios c1 \<union> fst ` set ops) - held_bios c2 then None else h1 q)"
    by fastforce
  have new: "q \<noteq> p \<and> q \<notin> held_bios c" if "q \<in> fst ` set ops" for q
    using Cons.prems(2,3) that by (auto simp: x image_iff)
  have "setBIOs (x # ops) c = (c2, k1 @ k2)"
    by (simp add: x s1 s2)
  moreover have "held_bios c2 \<subseteq> held_bios c \<union> fst ` set (x # ops)"
    using h1(3) h2(3) by (auto simp: x)
  moreover have "h2 q = (if q \<in> (held_bios c \<union> fst ` set (x # ops)) - held_bios c2 then None else h q)" for q
    using h1(3) h2(3) h1(4) [of q] h2(4) [of q] new [of q] by (auto simp: x subset_iff)
  ultimately show ?case
    using h1(1) h2(1,2) by (auto simp: bio_effects_append)
qed simp

lemma cleanup_ok:
  assumes "bios_ok c h"
  shows "bio_effects (snd (ssl_context_cleanup c)) h = Inr (\<lambda>q. if q \<in> held_bios c then None else h q)"
proof -
  have 1: "bio_effects (free_opt call.SSL_BIO_close (c_bio_is c)) h = Inr (close_field (c_bio_is c) h)"
    using assms by (intro free_field) (auto simp: bios_ok_def held_bios_def split: option.split)
  have 2: "bio_effects (free_opt call.SSL_BIO_close (c_bio_os c)) (close_field (c_bio_is c) h)
      = Inr (close_field (c_bio_os c) (close_field (c_bio_is c) h))"
    using assms
    by (intro free_field) (auto simp: bios_ok_def held_bios_def close_field_def plain_at_upd split: option.split)
  have "close_field (c_bio_os c) (close_field (c_bio_is c) h) = (\<lambda>q. if q \<in> held_bios c then None else h q)"
    by (auto simp: close_field_def held_bios_def split: option.split)
  then show ?thesis by (simp add: cleanup_effects 1 2)
qed

section \<open>Properties\<close>


definition sample_bio :: bio where
  "sample_bio = \<lparr>bi_data = Other_Data, bi_flags = 0, bi_init = True, bi_shutdown = True, bi_jbs = False\<rparr>"

lemma plain_sample: "plain sample_bio"
  by (simp add: plain_def sample_bio_def BIO_test_flags_def)


text \<open>
  A BIO that is not counted must not be given to a context in both directions: the
  cleanup closes it twice, the second time after it has been freed.
\<close>

theorem setBIO_both_directions:
  assumes "bios_ok c h" and "plain_at h p" and "p \<notin> held_bios c"
    and "setBIOs [(p, 0), (p, 1)] c = (c', calls)"
  shows "bio_effects (calls @ snd (ssl_context_cleanup c')) h = Inl Use_After_Free"
proof -
  obtain c1 k1 where s1: "setBIO (Some p) 0 c = (c1, k1)" by fastforce
  obtain h1 where h1: "bio_effects k1 h = Inr h1" "bios_ok c1 h1"
      "\<And>q. h1 q = (if q \<in> insert p (held_bios c) - held_bios c1 then None else h q)"
    using setBIO_effects [OF assms(1-3), of 0] s1 by auto
  have c1: "c1 = c\<lparr>c_bio_os := Some p\<rparr>" using s1 by (simp add: setBIO_def)
  have ne: "c_bio_is c \<noteq> Some p" using assms(3) by (auto simp: held_bios_def)
  have c': "c' = c\<lparr>c_bio_os := Some p, c_bio_is := Some p\<rparr>"
    and calls: "calls = k1 @ free_opt call.SSL_BIO_close (c_bio_is c) @ [call.SSL_BIO_doref (Some p)]"
    using assms(4) s1 ne by (auto simp: c1 setBIO_def free_opt_def split: option.splits)
  have p1: "plain_at h1 p"
    using assms(2) h1(3) [of p] by (simp add: c1 plain_at_def held_bios_def)
  let ?h2 = "close_field (c_bio_is c) h1"
  have f: "bio_effects (free_opt call.SSL_BIO_close (c_bio_is c)) h1 = Inr ?h2"
    using h1(2) by (intro free_field) (auto simp: c1 bios_ok_def held_bios_def split: option.split)
  have p2: "plain_at ?h2 p"
    using p1 ne by (auto simp: close_field_def plain_at_def split: option.split)
  have "bio_effects calls h = Inr ?h2"
    by (simp add: calls bio_effects_append h1(1) f plain_doref [OF p2])
  then show ?thesis
    by (simp add: bio_effects_append cleanup_effects c' free_opt_def plain_close [OF p2] gone_close)
qed

theorem setBIO_both_directions_witness:
  "\<exists>c' calls. setBIOs [(3, 0), (3, 1)] zero_ctxt = (c', calls) \<and>
    bio_effects (calls @ snd (ssl_context_cleanup c')) (\<lambda>p. Some sample_bio) = Inl Use_After_Free"
proof -
  obtain c' calls where s: "setBIOs [(3, 0), (3, 1)] zero_ctxt = (c', calls)" by fastforce
  have "bios_ok zero_ctxt (\<lambda>p. Some sample_bio)" "plain_at (\<lambda>p. Some sample_bio) 3" "3 \<notin> held_bios zero_ctxt"
    by (simp_all add: bios_ok_def held_bios_def zero_ctxt_def plain_at_def plain_sample)
  from setBIO_both_directions [OF this s] s show ?thesis by blast
qed

text \<open>
  Reading from Java trusts the number of bytes that Java returns: it stays within its
  memory exactly when that number is not larger than the size it asked for.
\<close>

theorem jbs_read_fault_iff:
  assumes "bi_init b" and "bi_data b = Java_Data j" and "bj_obj j = Some obj"
    and "0 \<le> outl" and "array_ok outl" and "int (length m) = outl"
    and "answer outl = (ret, jout)" and "int (length jout) = outl"
  shows "isl (jbs_read array_ok answer b (Some m) outl) \<longleftrightarrow> outl < ret"
proof -
  have "java_obj b = Inr obj" using assms(2,3) by (simp add: java_obj_def)
  then show ?thesis
    using assms by (auto simp: jbs_read_def rdn_def wrn_cell_def Let_def)
qed

theorem jbs_read_fault_iff_witness:
  "isl (jbs_read (\<lambda>_. True) (\<lambda>_. (3, [1, 2])) \<lparr>bi_data = Java_Data \<lparr>bj_refcount = 1, bj_pool = False, bj_obj = Some 7\<rparr>,
     bi_flags = 0, bi_init = True, bi_shutdown = True, bi_jbs = True\<rparr> (Some [None, None]) 2) = ((2 :: int) < 3)"
  by (rule jbs_read_fault_iff [where obj = 7 and jout = "[1, 2]" and
        j = "\<lparr>bj_refcount = 1, bj_pool = False, bj_obj = Some 7\<rparr>"]) simp_all

end
