(* ===== verification/Ssl_Certs.thy ===== *)
theory Ssl_Certs
  imports Ssl_Context
begin

text \<open>
  Passwords, keys and certificates: \<open>SSL_password_prompt\<close>, \<open>SSL_password_callback\<close>,
  \<open>SSL_dh_GetParamFromFile\<close>, \<open>SSL_ec_GetParamFromFile\<close> and
  \<open>SSL_CTX_use_certificate_chain\<close> of \<^verbatim>\<open>native/src/sslutils.c\<close>, and
  \<open>load_pem_key\<close>, \<open>load_pem_cert\<close>, \<open>ssl_load_pkcs12\<close>, \<open>setCertificate\<close>,
  \<open>setCertificateRaw\<close>, \<open>setCertificateChainFile\<close>, \<open>addChainCertificateRaw\<close> and
  \<open>addClientCACertificateRaw\<close> of \<^verbatim>\<open>native/src/sslcontext.c\<close>.

  The files and what OpenSSL makes of them are a parameter (\<open>file_env\<close>). The password is
  that of the global \<open>tcn_password_callback\<close>, the only one that a context can refer to; it
  is kept as a C string.
\<close>

section \<open>The password\<close>

record pass_cb =
  pw_password :: "byte list"
  pw_prompt_set :: bool

text \<open>
  \<open>typed\<close> is the string that \<open>EVP_read_pw_string\<close> leaves in the password buffer.
\<close>

definition SSL_password_prompt :: "byte list \<Rightarrow> pass_cb \<Rightarrow> int \<times> pass_cb" where
  "SSL_password_prompt typed cb =
     (let rv = length typed in
      if rv > 0 \<and> 10 \<in> set typed
      then (int rv - 1, cb\<lparr>pw_password := takeWhile (\<lambda>b. b \<noteq> 10) typed\<rparr>)
      else (int rv, cb\<lparr>pw_password := typed\<rparr>))"

text \<open>
  \<open>SSL_password_callback\<close>: the string in \<open>buf\<close> (its length is the result), the
  password state and what is left of the answers the user will type; an exhausted user types
  nothing. A buffer without bytes is written outside.
\<close>

definition SSL_password_callback ::
  "int \<Rightarrow> byte list list \<Rightarrow> pass_cb \<Rightarrow> (byte list \<times> pass_cb \<times> byte list list) run" where
  "SSL_password_callback bufsiz answers cb =
     (if bufsiz \<le> 0 then Inl Out_Of_Bounds
      else
        (let cb = cb\<lparr>pw_prompt_set := True\<rparr> in
         if pw_password cb \<noteq> [] then Inr (take (nat bufsiz - 1) (pw_password cb), cb, answers)
         else
           (let (typed, answers) = (case answers of [] \<Rightarrow> ([], []) | t # ts \<Rightarrow> (t, ts));
                (rv, cb) = SSL_password_prompt typed cb
            in if rv > 0 then Inr (take (nat bufsiz - 1) (pw_password cb), cb, answers)
               else Inr ([], cb, answers))))"

section \<open>Files\<close>

datatype key_params = DH_params ptr | EC_params "int option" | Other_params

text \<open>
  What OpenSSL finds in a file: whether it can be opened, a private key, encrypted or not, a
  certificate in PEM (or no PEM start line) or DER, a PKCS 12 bundle with the passwords its MAC
  accepts, key parameters (for a curve the id of its name, \<open>None\<close> when the name cannot be
  read), and the certificates of a chain with the errors reading them leaves in the queue.
\<close>

record file_env =
  f_bio_new :: bool
  f_open :: "byte list \<Rightarrow> bool"
  f_encrypted :: "byte list \<Rightarrow> bool"
  f_private_key :: "byte list \<Rightarrow> byte list \<Rightarrow> ptr option"
  f_pem_cert :: "byte list \<Rightarrow> ptr option"
  f_no_start_line :: "byte list \<Rightarrow> bool"
  f_der_cert :: "byte list \<Rightarrow> ptr option"
  f_pkcs12 :: "byte list \<Rightarrow> bool"
  f_mac :: "byte list \<Rightarrow> byte list \<Rightarrow> bool"
  f_pkcs12_parse :: "byte list \<Rightarrow> byte list \<Rightarrow> (ptr \<times> ptr) option"
  f_params :: "byte list \<Rightarrow> key_params option"

definition PEM_BUFSIZE :: int where "PEM_BUFSIZE = 1024"

text \<open>
  The loop of \<open>load_pem_key\<close> with \<open>n\<close> attempts left. \<open>PEM_read_bio_PrivateKey\<close> asks
  for the password of an encrypted key only.
\<close>

fun pem_key_loop ::
  "file_env \<Rightarrow> byte list \<Rightarrow> nat \<Rightarrow> byte list list \<Rightarrow> pass_cb \<Rightarrow> (ptr option \<times> pass_cb \<times> byte list list) run" where
  "pem_key_loop env file 0 answers cb = Inr (None, cb, answers)"
| "pem_key_loop env file (Suc n) answers cb =
     run_bind (if f_encrypted env file then SSL_password_callback PEM_BUFSIZE answers cb else Inr ([], cb, answers))
       (\<lambda>(pass, cb, answers).
        case f_private_key env file pass of
          Some key \<Rightarrow> Inr (Some key, cb, answers)
        | None \<Rightarrow> pem_key_loop env file n answers (cb\<lparr>pw_password := []\<rparr>))"

definition load_pem_key ::
  "file_env \<Rightarrow> byte list \<Rightarrow> byte list list \<Rightarrow> pass_cb \<Rightarrow> (ptr option \<times> pass_cb \<times> byte list list) run" where
  "load_pem_key env file answers cb =
     (if \<not> f_bio_new env then Inr (None, cb, answers)
      else if \<not> f_open env file then Inr (None, cb, answers)
      else pem_key_loop env file 3 answers cb)"

definition load_pem_cert :: "file_env \<Rightarrow> byte list \<Rightarrow> ptr option" where
  "load_pem_cert env file =
     (if \<not> f_bio_new env then None
      else if \<not> f_open env file then None
      else
        (case f_pem_cert env file of
           Some x \<Rightarrow> Some x
         | None \<Rightarrow> if f_no_start_line env file then f_der_cert env file else None))"

text \<open>\<open>ssl_load_pkcs12\<close>: the key and the certificate, or \<open>None\<close> for the result 0.\<close>

definition ssl_load_pkcs12 ::
  "file_env \<Rightarrow> byte list \<Rightarrow> byte list list \<Rightarrow> pass_cb \<Rightarrow> ((ptr \<times> ptr) option \<times> pass_cb \<times> byte list list) run" where
  "ssl_load_pkcs12 env file answers cb =
     (if \<not> f_bio_new env \<or> \<not> f_open env file \<or> \<not> f_pkcs12 env file then Inr (None, cb, answers)
      else if f_mac env file [] then Inr (f_pkcs12_parse env file [], cb, answers)
      else
        run_bind (SSL_password_callback PEM_BUFSIZE answers cb) (\<lambda>(buff, cb, answers).
        if \<not> f_mac env file buff then Inr (None, cb, answers)
        else Inr (f_pkcs12_parse env file buff, cb, answers)))"

definition SSL_dh_GetParamFromFile :: "file_env \<Rightarrow> byte list \<Rightarrow> ptr option" where
  "SSL_dh_GetParamFromFile env file =
     (if \<not> f_open env file then None
      else
        (case f_params env file of
           None \<Rightarrow> None
         | Some (DH_params p) \<Rightarrow> Some p
         | Some _ \<Rightarrow> None))"

text \<open>The id of the curve, 0 (\<open>NID_undef\<close>) when there is none.\<close>

definition NID_undef :: int where "NID_undef = 0"

definition SSL_ec_GetParamFromFile :: "file_env \<Rightarrow> byte list \<Rightarrow> int" where
  "SSL_ec_GetParamFromFile env file =
     (if \<not> f_open env file then NID_undef
      else
        (case f_params env file of
           Some (EC_params (Some nid)) \<Rightarrow> nid
         | _ \<Rightarrow> NID_undef))"

section \<open>The first password that works\<close>

text \<open>
  What a typed answer amounts to, and the passwords that three attempts present: the stored
  one first, when there is one, then the answers; who does not answer types nothing.
\<close>

definition typed_pass :: "byte list \<Rightarrow> byte list" where
  "typed_pass t = take 1023 (takeWhile (\<lambda>b. b \<noteq> 10) t)"

definition passes :: "pass_cb \<Rightarrow> byte list list \<Rightarrow> byte list list" where
  "passes cb answers =
     take 3 ((if pw_password cb = [] then [] else [take 1023 (pw_password cb)]) @
       map typed_pass answers @ replicate 3 [])"

lemma takeWhile_no_newline: "10 \<notin> set t \<Longrightarrow> takeWhile (\<lambda>b. b \<noteq> (10 :: byte)) t = t"
  by (rule takeWhile_eq_all_conv [THEN iffD2]) auto

lemma takeWhile_only_newline:
  "10 \<in> set t \<Longrightarrow> length t \<le> 1 \<Longrightarrow> takeWhile (\<lambda>b. b \<noteq> (10 :: byte)) t = []"
  by (cases t) auto

lemma SSL_password_callback_stored:
  "pw_password cb \<noteq> [] \<Longrightarrow> SSL_password_callback PEM_BUFSIZE answers cb
    = Inr (take 1023 (pw_password cb), cb\<lparr>pw_prompt_set := True\<rparr>, answers)"
  by (simp add: SSL_password_callback_def PEM_BUFSIZE_def Let_def)

lemma SSL_password_callback_typed:
  assumes "pw_password cb = []"
  shows "\<exists>cb'. SSL_password_callback PEM_BUFSIZE answers cb
    = Inr (typed_pass (case answers of [] \<Rightarrow> [] | t # ts \<Rightarrow> t), cb', case answers of [] \<Rightarrow> [] | t # ts \<Rightarrow> ts)"
  using assms
  by (cases answers; cases "10 \<in> set (hd answers)")
    (auto simp: SSL_password_callback_def SSL_password_prompt_def PEM_BUFSIZE_def Let_def typed_pass_def
      takeWhile_no_newline takeWhile_only_newline)

lemma pem_key_loop_typed:
  "f_encrypted env file \<Longrightarrow> pw_password cb = [] \<Longrightarrow>
   \<exists>cb' rest. pem_key_loop env file n answers cb =
     Inr (first_some (map (f_private_key env file) (take n (map typed_pass answers @ replicate n []))), cb', rest)"
proof (induction n arbitrary: answers cb)
  case (Suc n)
  obtain cb1 where c: "SSL_password_callback PEM_BUFSIZE answers cb
    = Inr (typed_pass (case answers of [] \<Rightarrow> [] | t # ts \<Rightarrow> t), cb1, case answers of [] \<Rightarrow> [] | t # ts \<Rightarrow> ts)"
    using SSL_password_callback_typed [OF Suc.prems(2)] by blast
  have nil: "typed_pass [] = []" by (simp add: typed_pass_def)
  have pad: "take n (xs @ replicate (Suc n) []) = take n (xs @ replicate n ([] :: byte list))" for xs
    by (simp add: take_Cons' replicate_append_same [symmetric])
  obtain cb2 rest where r: "pem_key_loop env file n (case answers of [] \<Rightarrow> [] | t # ts \<Rightarrow> ts) (cb1\<lparr>pw_password := []\<rparr>) =
     Inr (first_some (map (f_private_key env file)
       (take n (map typed_pass (case answers of [] \<Rightarrow> [] | t # ts \<Rightarrow> ts) @ replicate n []))), cb2, rest)"
    using Suc.IH [of "cb1\<lparr>pw_password := []\<rparr>"] Suc.prems(1) by force
  show ?case
    using c r Suc.prems(1) nil pad
    by (cases answers; cases "f_private_key env file (typed_pass (case answers of [] \<Rightarrow> [] | t # ts \<Rightarrow> t))")
      auto
qed simp

lemma load_pem_key_passes:
  assumes "f_bio_new env" and "f_open env file" and "f_encrypted env file"
  shows "\<exists>cb' rest. load_pem_key env file answers cb =
    Inr (first_some (map (f_private_key env file) (passes cb answers)), cb', rest)"
proof (cases "pw_password cb = []")
  case True
  then show ?thesis
    using pem_key_loop_typed [OF assms(3) True, of 3 answers] assms by (simp add: load_pem_key_def passes_def)
next
  case False
  obtain cb' rest where r: "pem_key_loop env file 2 answers (cb\<lparr>pw_prompt_set := True, pw_password := []\<rparr>) =
     Inr (first_some (map (f_private_key env file) (take 2 (map typed_pass answers @ replicate 2 []))), cb', rest)"
    using pem_key_loop_typed [OF assms(3), of "cb\<lparr>pw_prompt_set := True, pw_password := []\<rparr>" 2 answers] by auto
  have pad: "take 2 (xs @ replicate 3 []) = take 2 (xs @ replicate 2 ([] :: byte list))" for xs
    by (cases xs; cases "tl xs") (auto simp: numeral_eq_Suc)
  have three: "pem_key_loop env file 3 answers cb =
      run_bind (SSL_password_callback PEM_BUFSIZE answers cb) (\<lambda>(pass, cb, answers).
        case f_private_key env file pass of
          Some key \<Rightarrow> Inr (Some key, cb, answers)
        | None \<Rightarrow> pem_key_loop env file 2 answers (cb\<lparr>pw_password := []\<rparr>))"
    using assms(3) pem_key_loop.simps(2) [of env "file" 2 answers cb] by simp
  show ?thesis
    using assms(1,2) r pad [of "map typed_pass answers"]
    by (cases "f_private_key env file (take 1023 (pw_password cb))")
      (simp_all add: load_pem_key_def passes_def three SSL_password_callback_stored [OF False] False
        del: pem_key_loop.simps)
qed

section \<open>Certificates of a context\<close>

text \<open>The suffix of \<open>strrchr(file, '.')\<close> is \<open>.pkcs12\<close>.\<close>

definition pkcs12_suffix :: "byte list" where "pkcs12_suffix = map of_char ''.pkcs12''"

definition has_pkcs12_suffix :: "byte list \<Rightarrow> bool" where
  "has_pkcs12_suffix file \<longleftrightarrow>
     46 \<in> set file \<and> 46 # rev (takeWhile (\<lambda>b. b \<noteq> 46) (rev file)) = pkcs12_suffix"

text \<open>What the \<open>SSL_CTX\<close> answers to a certificate, a key, their combination and DH parameters.\<close>

record ctx_env =
  x_use_certificate :: "ptr option \<Rightarrow> bool"
  x_use_PrivateKey :: "ptr option \<Rightarrow> bool"
  x_check_private_key :: bool
  x_set_tmp_dh :: bool
  x_add_chain_cert :: "ptr \<Rightarrow> bool"
  x_add_client_CA :: "ptr \<Rightarrow> bool"

definition idx_ok :: "int \<Rightarrow> bool" where
  "idx_ok idx \<longleftrightarrow> \<not> (idx < 0 \<or> idx \<ge> int SSL_AIDX_MAX)"

text \<open>
  The end of \<open>setCertificate\<close> and \<open>setCertificateRaw\<close>: the certificate and the key of
  the slot go into the \<open>SSL_CTX\<close>.
\<close>

definition use_slot :: "ctx_env \<Rightarrow> nat \<Rightarrow> tcn_ssl_ctxt_t \<Rightarrow> bool \<times> call list" where
  "use_slot x i c =
     (if \<not> x_use_certificate x (c_certs c ! i)
      then (False, [CTX_use_certificate (c_certs c ! i), Throw ''Error setting certificate''])
      else if \<not> x_use_PrivateKey x (c_keys c ! i)
      then (False, [CTX_use_certificate (c_certs c ! i), CTX_use_PrivateKey (c_keys c ! i),
                    Throw ''Error setting private key''])
      else if \<not> x_check_private_key x
      then (False, [CTX_use_certificate (c_certs c ! i), CTX_use_PrivateKey (c_keys c ! i),
                    Throw ''Private key does not match the certificate public key''])
      else (True, [CTX_use_certificate (c_certs c ! i), CTX_use_PrivateKey (c_keys c ! i)]))"

record cert_result =
  cr_ok :: bool
  cr_ctxt :: tcn_ssl_ctxt_t
  cr_pass :: pass_cb
  cr_calls :: "call list"

definition set_slot :: "nat \<Rightarrow> ptr option \<Rightarrow> ptr option \<Rightarrow> tcn_ssl_ctxt_t \<Rightarrow> tcn_ssl_ctxt_t" where
  "set_slot i cert key c = c\<lparr>c_certs := (c_certs c)[i := cert], c_keys := (c_keys c)[i := key]\<rparr>"

text \<open>
  Loading into the slot: the success flag, the context and the exception. A PKCS 12 file that
  cannot be loaded is taken to leave the slot alone (what \<open>PKCS12_parse\<close> stores when it fails
  is not documented); a PEM file replaces the key, then the certificate.
\<close>

definition load_slot ::
  "file_env \<Rightarrow> byte list \<Rightarrow> byte list \<Rightarrow> nat \<Rightarrow> byte list list \<Rightarrow> pass_cb \<Rightarrow> tcn_ssl_ctxt_t
   \<Rightarrow> (bool \<times> tcn_ssl_ctxt_t \<times> pass_cb \<times> call list) run" where
  "load_slot env cert_file key_file i answers cb c =
     (if has_pkcs12_suffix cert_file then
        run_bind (ssl_load_pkcs12 env cert_file answers cb) (\<lambda>(r, cb, _).
        case r of
          None \<Rightarrow> Inr (False, c, cb, [Throw ''Unable to load certificate''])
        | Some (key, cert) \<Rightarrow> Inr (True, set_slot i (Some cert) (Some key) c, cb, []))
      else
        run_bind (load_pem_key env key_file answers cb) (\<lambda>(key, cb, _).
        let c = c\<lparr>c_keys := (c_keys c)[i := key]\<rparr> in
        if key = None then Inr (False, c, cb, [Throw ''Unable to load certificate key''])
        else
          (let cert = load_pem_cert env cert_file; c = c\<lparr>c_certs := (c_certs c)[i := cert]\<rparr> in
           if cert = None then Inr (False, c, cb, [Throw ''Unable to load certificate''])
           else Inr (True, c, cb, []))))"

definition setCertificate ::
  "file_env \<Rightarrow> ctx_env \<Rightarrow> byte list option \<Rightarrow> byte list option \<Rightarrow> byte list option \<Rightarrow> int
   \<Rightarrow> byte list list \<Rightarrow> pass_cb \<Rightarrow> tcn_ssl_ctxt_t \<Rightarrow> cert_result run" where
  "setCertificate env x cert key password idx answers cb c =
     (if \<not> idx_ok idx then Inr \<lparr>cr_ok = False, cr_ctxt = c, cr_pass = cb, cr_calls = []\<rparr>
      else
        (let i = nat idx;
             (c, cb) = (case password of
                None \<Rightarrow> (c, cb)
              | Some p \<Rightarrow> (c\<lparr>c_cb_data := True\<rparr>, cb\<lparr>pw_password := take (SSL_MAX_PASSWORD_LEN - 1) (c_str p)\<rparr>));
             key_file = (case key of None \<Rightarrow> cert | Some k \<Rightarrow> Some k)
         in case (key_file, cert) of
              (Some key_file, Some cert_file) \<Rightarrow>
                run_bind (load_slot env (c_str cert_file) (c_str key_file) i answers cb c) (\<lambda>(ok, c, cb, calls).
                if \<not> ok then Inr \<lparr>cr_ok = False, cr_ctxt = c, cr_pass = cb, cr_calls = calls\<rparr>
                else
                  (let (ok, calls) = use_slot x i c in
                   if \<not> ok then Inr \<lparr>cr_ok = False, cr_ctxt = c, cr_pass = cb, cr_calls = calls\<rparr>
                   else
                     (let dh = (if idx = 0 then SSL_dh_GetParamFromFile env (c_str cert_file) else None);
                          calls_dh = (case dh of
                              None \<Rightarrow> []
                            | Some evp \<Rightarrow> CTX_set_tmp_dh evp # (if x_set_tmp_dh x then [] else [EVP_PKEY_free evp]));
                          nid = SSL_ec_GetParamFromFile env (c_str cert_file)
                      in Inr \<lparr>cr_ok = True, cr_ctxt = c, cr_pass = cb,
                              cr_calls = calls @ calls_dh @
                                (if nid \<noteq> NID_undef then [CTX_set_groups nid] else []) @ [CTX_set_dh_auto]\<rparr>)))
            | _ \<Rightarrow> Inr \<lparr>cr_ok = False, cr_ctxt = c, cr_pass = cb,
                      cr_calls = [Throw ''No Certificate file specified or invalid file format'']\<rparr>))"

text \<open>
  \<open>setCertificateRaw\<close>: the DER certificate and the PEM key of the Java arrays, as OpenSSL
  reads them. What the slot held before is released by the C library's \<open>free\<close>.
\<close>

definition setCertificateRaw ::
  "ctx_env \<Rightarrow> ptr option \<Rightarrow> ptr option \<Rightarrow> int \<Rightarrow> tcn_ssl_ctxt_t \<Rightarrow> bool \<times> tcn_ssl_ctxt_t \<times> call list" where
  "setCertificateRaw x cert evp idx c =
     (if \<not> idx_ok idx then (False, c, [Throw ''Invalid key type''])
      else if cert = None then (False, c, [Throw ''Error reading certificate''])
      else
        (let i = nat idx;
             calls1 = free_opt Libc_free (c_certs c ! i);
             c1 = c\<lparr>c_certs := (c_certs c)[i := cert]\<rparr>
         in if evp = None then (False, c1, calls1 @ [Throw ''Error reading private key''])
            else
              (let calls2 = free_opt Libc_free (c_keys c1 ! i);
                   c2 = c1\<lparr>c_keys := (c_keys c1)[i := evp]\<rparr>;
                   (ok, calls3) = use_slot x i c2
               in (ok, c2, calls1 @ calls2 @ calls3 @ (if ok then [CTX_set_dh_auto] else [])))))"

definition addChainCertificateRaw :: "ctx_env \<Rightarrow> ptr option \<Rightarrow> bool \<times> call list" where
  "addChainCertificateRaw x cert =
     (case cert of
        None \<Rightarrow> (False, [Throw ''Error reading certificate''])
      | Some p \<Rightarrow>
          if \<not> x_add_chain_cert x p
          then (False, [CTX_add_chain_cert p, Throw ''Error adding certificate to chain'', X509_free p])
          else (True, [CTX_add_chain_cert p]))"

definition addClientCACertificateRaw :: "ctx_env \<Rightarrow> ptr option \<Rightarrow> bool \<times> call list" where
  "addClientCACertificateRaw x cert =
     (case cert of
        None \<Rightarrow> (False, [Throw ''Error encoding allowed peer CA certificate''])
      | Some p \<Rightarrow>
          if \<not> x_add_client_CA x p
          then (False, [CTX_add_client_CA p, Throw ''Error adding allowed peer CA certificate'', X509_free p])
          else (True, [CTX_add_client_CA p, X509_free p]))"

section \<open>Certificate chains\<close>

text \<open>
  The certificates a chain file holds, and whether the errors that OpenSSL's queue holds from
  before are \<open>PEM_R_NO_START_LINE\<close>; reading past the last certificate adds such an error.
\<close>

record chain_file =
  h_bio_new :: bool
  h_open :: bool
  h_certs :: "ptr list"
  h_queue :: "bool list"

fun add_extra_chain :: "(ptr \<Rightarrow> bool) \<Rightarrow> ptr list \<Rightarrow> int \<Rightarrow> int option \<times> call list" where
  "add_extra_chain add_ok [] n = (Some n, [])"
| "add_extra_chain add_ok (x509 # xs) n =
     (if \<not> add_ok x509 then (None, [CTX_add_chain_cert x509, X509_free x509])
      else (let (r, calls) = add_extra_chain add_ok xs (n + 1) in (r, CTX_add_chain_cert x509 # calls)))"

definition SSL_CTX_use_certificate_chain ::
  "(ptr \<Rightarrow> bool) \<Rightarrow> chain_file \<Rightarrow> bool \<Rightarrow> int \<times> call list" where
  "SSL_CTX_use_certificate_chain add_ok h skipfirst =
     (if \<not> h_bio_new h then (-1, [])
      else if \<not> h_open h then (-1, [])
      else if skipfirst \<and> h_certs h = [] then (-1, [])
      else
        (let skipped = (if skipfirst then [X509_free (hd (h_certs h))] else []);
             certs = (if skipfirst then tl (h_certs h) else h_certs h);
             (r, calls) = add_extra_chain add_ok certs 0
         in case r of
              None \<Rightarrow> (-1, skipped @ [CTX_clear_extra_chain] @ calls)
            | Some n \<Rightarrow>
                (if \<not> hd (h_queue h @ [True]) then -1 else n,
                 skipped @ [CTX_clear_extra_chain] @ calls)))"

definition setCertificateChainFile :: "(ptr \<Rightarrow> bool) \<Rightarrow> chain_file option \<Rightarrow> bool \<Rightarrow> bool \<times> call list" where
  "setCertificateChainFile add_ok chain skipfirst =
     (case chain of
        None \<Rightarrow> (False, [])
      | Some h \<Rightarrow> (let (n, calls) = SSL_CTX_use_certificate_chain add_ok h skipfirst in (n > 0, calls)))"

lemma add_extra_chain_all:
  "\<forall>x \<in> set xs. add_ok x \<Longrightarrow> add_extra_chain add_ok xs n = (Some (n + int (length xs)), map CTX_add_chain_cert xs)"
  by (induction xs arbitrary: n) (auto simp: algebra_simps)

section \<open>Slots\<close>

lemma use_slot_ok:
  "use_slot x i c = (True, calls) \<Longrightarrow> calls = [CTX_use_certificate (c_certs c ! i), CTX_use_PrivateKey (c_keys c ! i)]"
  by (auto simp: use_slot_def split: if_split_asm)

lemma load_slot_ok:
  assumes "load_slot env cert_file key_file i answers cb c = Inr (True, c', cb', calls)"
  shows "\<exists>cert key. c' = set_slot i (Some cert) (Some key) c"
proof (cases "has_pkcs12_suffix cert_file")
  case True
  then obtain key cert where "c' = set_slot i (Some cert) (Some key) c"
    using assms by (auto simp: load_slot_def elim!: run_bind_InrE split: option.split_asm)
  then show ?thesis by blast
next
  case False
  then obtain key cert where
    "c' = c\<lparr>c_keys := (c_keys c)[i := Some key], c_certs := (c_certs c)[i := Some cert]\<rparr>"
    using assms by (auto simp: load_slot_def Let_def elim!: run_bind_InrE split: if_split_asm)
  then have "c' = set_slot i (Some cert) (Some key) c"
    by (simp add: set_slot_def)
  then show ?thesis by blast
qed

text \<open>
  A successful \<open>setCertificate\<close>: the slot is replaced, its content is put into the
  \<open>SSL_CTX\<close>, and nothing but rejected DH parameters is released.
\<close>

lemma setCertificate_ok:
  assumes "setCertificate env x cert key password idx answers cb c = Inr res" and "cr_ok res"
  shows "\<exists>x509 evp c0 more. idx_ok idx \<and> c_certs c0 = c_certs c \<and> c_keys c0 = c_keys c
    \<and> cr_ctxt res = set_slot (nat idx) (Some x509) (Some evp) c0
    \<and> cr_calls res = [CTX_use_certificate (c_certs (cr_ctxt res) ! nat idx),
         CTX_use_PrivateKey (c_keys (cr_ctxt res) ! nat idx)] @ more
    \<and> (\<forall>p. X509_free p \<notin> set (cr_calls res) \<and> Libc_free p \<notin> set (cr_calls res))"
proof -
  obtain c0 cb0 where pw: "(case password of
                None \<Rightarrow> (c, cb)
              | Some p \<Rightarrow> (c\<lparr>c_cb_data := True\<rparr>, cb\<lparr>pw_password := take (SSL_MAX_PASSWORD_LEN - 1) (c_str p)\<rparr>))
      = (c0, cb0)" and c0: "c_certs c0 = c_certs c" "c_keys c0 = c_keys c"
    by (cases password) auto
  have idx: "idx_ok idx"
    using assms by (cases "idx_ok idx") (auto simp: setCertificate_def)
  obtain kf cf where files: "(case key of None \<Rightarrow> cert | Some k \<Rightarrow> Some k) = Some kf" "cert = Some cf"
    using assms idx by (cases cert; cases key) (auto simp: setCertificate_def pw Let_def)
  obtain ok c1 cb1 calls1 where l: "load_slot env (c_str cf) (c_str kf) (nat idx) answers cb0 c0 = Inr (ok, c1, cb1, calls1)"
    using assms(1) idx files by (auto simp: setCertificate_def pw Let_def elim!: run_bind_InrE)
  have ok: ok
    using assms idx files l by (cases ok) (auto simp: setCertificate_def pw Let_def)
  obtain ok2 calls2 where u: "use_slot x (nat idx) c1 = (ok2, calls2)" by fastforce
  have ok2: ok2
    using assms idx files l ok u by (cases ok2) (auto simp: setCertificate_def pw Let_def)
  obtain x509 evp where s: "c1 = set_slot (nat idx) (Some x509) (Some evp) c0"
    using load_slot_ok [of env "c_str cf" "c_str kf" "nat idx" answers cb0 c0 c1 cb1 calls1] l ok by auto
  have "cr_ctxt res = c1 \<and> (\<exists>more. cr_calls res = calls2 @ more
      \<and> (\<forall>p. X509_free p \<notin> set more \<and> Libc_free p \<notin> set more))"
    using assms idx files l ok u ok2 by (auto simp: setCertificate_def pw Let_def split: option.splits)
  then obtain more where m: "cr_ctxt res = c1" "cr_calls res = calls2 @ more"
    "\<forall>p. X509_free p \<notin> set more \<and> Libc_free p \<notin> set more"
    by blast
  have calls2: "calls2 = [CTX_use_certificate (c_certs c1 ! nat idx), CTX_use_PrivateKey (c_keys c1 ! nat idx)]"
    using use_slot_ok [of x "nat idx" c1 calls2] u ok2 by simp
  show ?thesis
    by (intro exI conjI)
      (rule idx, rule c0(1), rule c0(2), use m s calls2 in simp_all)
qed

section \<open>Properties\<close>

text \<open>
  C26: an encrypted private key is tried with three passwords, the stored one first when there
  is one, then what the user types (cut at a newline and to the buffer of OpenSSL); the result
  is the key that the first working password opens, and NULL when none of the three does.
\<close>

theorem load_pem_key_three_tries:
  assumes "f_bio_new env" and "f_open env file" and "f_encrypted env file"
  shows "\<exists>cb' rest. load_pem_key env file answers cb =
    Inr (first_some (map (f_private_key env file) (passes cb answers)), cb', rest) \<and>
    length (passes cb answers) = 3"
proof -
  have "length (passes cb answers) = 3" by (auto simp: passes_def)
  with load_pem_key_passes [OF assms] show ?thesis by blast
qed

definition sample_files :: file_env where
  "sample_files =
     \<lparr>f_bio_new = True, f_open = \<lambda>_. True, f_encrypted = \<lambda>_. True,
      f_private_key = \<lambda>_ pw. if pw = [1, 2] then Some 5 else None,
      f_pem_cert = \<lambda>_. Some 6, f_no_start_line = \<lambda>_. False, f_der_cert = \<lambda>_. None,
      f_pkcs12 = \<lambda>_. False, f_mac = \<lambda>_ _. False, f_pkcs12_parse = \<lambda>_ _. None, f_params = \<lambda>_. None\<rparr>"

theorem load_pem_key_three_tries_witness:
  "\<exists>cb' rest. load_pem_key sample_files [47] [[8], [1, 2, 10, 9]] \<lparr>pw_password = [7], pw_prompt_set = False\<rparr> =
    Inr (first_some (map (f_private_key sample_files [47])
      (passes \<lparr>pw_password = [7], pw_prompt_set = False\<rparr> [[8], [1, 2, 10, 9]])), cb', rest) \<and>
    length (passes \<lparr>pw_password = [7], pw_prompt_set = False\<rparr> [[8], [1, 2, 10, 9]]) = 3"
  by (rule load_pem_key_three_tries) (simp_all add: sample_files_def)

text \<open>
  A successful \<open>setCertificate\<close> puts the loaded certificate and then the loaded key
  into the slot and the \<open>SSL_CTX\<close>, and releases neither the certificate nor the key the
  slot held before: a context configured twice for one slot leaks the first pair.
\<close>

theorem setCertificate_replaces_without_release:
  assumes "setCertificate env x cert key password idx answers cb c = Inr res" and "cr_ok res"
    and "length (c_certs c) = SSL_AIDX_MAX" and "length (c_keys c) = SSL_AIDX_MAX"
  shows "\<exists>x509 evp more. c_certs (cr_ctxt res) = (c_certs c)[nat idx := Some x509] \<and>
    c_keys (cr_ctxt res) = (c_keys c)[nat idx := Some evp] \<and>
    cr_calls res = [CTX_use_certificate (Some x509), CTX_use_PrivateKey (Some evp)] @ more \<and>
    (\<forall>p. X509_free p \<notin> set (cr_calls res))"
proof -
  obtain x509 evp c0 more where s: "idx_ok idx" "c_certs c0 = c_certs c" "c_keys c0 = c_keys c"
    "cr_ctxt res = set_slot (nat idx) (Some x509) (Some evp) c0"
    "cr_calls res = [CTX_use_certificate (c_certs (cr_ctxt res) ! nat idx),
         CTX_use_PrivateKey (c_keys (cr_ctxt res) ! nat idx)] @ more"
    "\<forall>p. X509_free p \<notin> set (cr_calls res) \<and> Libc_free p \<notin> set (cr_calls res)"
    using setCertificate_ok [OF assms(1,2)] by blast
  have "nat idx < SSL_AIDX_MAX"
    using s(1) by (auto simp: idx_ok_def)
  then have "c_certs (cr_ctxt res) ! nat idx = Some x509" "c_keys (cr_ctxt res) ! nat idx = Some evp"
    using s(2-4) assms(3,4) by (simp_all add: set_slot_def)
  then have "c_certs (cr_ctxt res) = (c_certs c)[nat idx := Some x509] \<and>
    c_keys (cr_ctxt res) = (c_keys c)[nat idx := Some evp] \<and>
    cr_calls res = [CTX_use_certificate (Some x509), CTX_use_PrivateKey (Some evp)] @ more \<and>
    (\<forall>p. X509_free p \<notin> set (cr_calls res))"
    using s(2-6) by (simp add: set_slot_def)
  then show ?thesis by blast
qed

definition sample_ctx_env :: ctx_env where
  "sample_ctx_env =
     \<lparr>x_use_certificate = \<lambda>_. True, x_use_PrivateKey = \<lambda>_. True, x_check_private_key = True,
      x_set_tmp_dh = True, x_add_chain_cert = \<lambda>_. True, x_add_client_CA = \<lambda>_. True\<rparr>"

theorem setCertificate_replaces_without_release_witness:
  "\<exists>res x509 evp more. setCertificate sample_files sample_ctx_env (Some [47]) None (Some [1, 2]) 1 []
      \<lparr>pw_password = [], pw_prompt_set = False\<rparr> (set_slot 1 (Some 8) (Some 9) zero_ctxt) = Inr res \<and>
    c_certs (cr_ctxt res) = (c_certs (set_slot 1 (Some 8) (Some 9) zero_ctxt))[nat 1 := Some x509] \<and>
    c_keys (cr_ctxt res) = (c_keys (set_slot 1 (Some 8) (Some 9) zero_ctxt))[nat 1 := Some evp] \<and>
    cr_calls res = [CTX_use_certificate (Some x509), CTX_use_PrivateKey (Some evp)] @ more \<and>
    (\<forall>p. X509_free p \<notin> set (cr_calls res))"
proof -
  let ?c = "set_slot 1 (Some 8) (Some 9) zero_ctxt"
  have "pem_key_loop sample_files [47] (Suc 2) [] \<lparr>pw_password = [1, 2], pw_prompt_set = False\<rparr>
      = Inr (Some 5, \<lparr>pw_password = [1, 2], pw_prompt_set = True\<rparr>, [])"
    by (simp only: pem_key_loop.simps) (simp add: sample_files_def SSL_password_callback_def PEM_BUFSIZE_def Let_def)
  then have l: "load_pem_key sample_files [47] [] \<lparr>pw_password = [1, 2], pw_prompt_set = False\<rparr>
      = Inr (Some 5, \<lparr>pw_password = [1, 2], pw_prompt_set = True\<rparr>, [])"
    by (simp add: load_pem_key_def sample_files_def)
  have cert: "load_pem_cert sample_files [47] = Some 6"
    by (simp add: load_pem_cert_def sample_files_def)
  have s: "c_str [47] = [47]" "c_str [1, 2] = [1, 2]" "\<not> has_pkcs12_suffix [47]"
    by (simp_all add: c_str_def has_pkcs12_suffix_def)
  obtain res where r: "setCertificate sample_files sample_ctx_env (Some [47]) None (Some [1, 2]) 1 []
      \<lparr>pw_password = [], pw_prompt_set = False\<rparr> ?c = Inr res" and ok: "cr_ok res"
    by (simp add: setCertificate_def idx_ok_def SSL_AIDX_MAX_def Let_def SSL_MAX_PASSWORD_LEN_def s load_slot_def
        l cert use_slot_def sample_ctx_env_def)
  have len: "length (c_certs ?c) = SSL_AIDX_MAX" "length (c_keys ?c) = SSL_AIDX_MAX"
    by (simp_all add: set_slot_def zero_ctxt_def)
  from setCertificate_replaces_without_release [OF r ok len] r show ?thesis by blast
qed

text \<open>
  \<open>setCertificateRaw\<close> releases the certificate a slot holds, an OpenSSL object, by the
  C library's \<open>free\<close>: its reference count is ignored, also when the \<open>SSL_CTX\<close> still
  refers to it.
\<close>

theorem setCertificateRaw_libc_free:
  assumes "setCertificateRaw x (Some cert) evp idx c = (rv, c', calls)"
    and "0 \<le> idx" and "idx < 4" and "c_certs c ! nat idx = Some old"
  shows "calls \<noteq> [] \<and> hd calls = Libc_free old \<and> X509_free old \<notin> set calls"
  using assms
  by (auto simp: setCertificateRaw_def idx_ok_def SSL_AIDX_MAX_def free_opt_def use_slot_def Let_def
      split: if_split_asm option.split_asm prod.split_asm)

theorem setCertificateRaw_libc_free_witness:
  "\<exists>rv c' calls. setCertificateRaw sample_ctx_env (Some 21) (Some 22) 0 (set_slot 0 (Some 8) (Some 9) zero_ctxt)
      = (rv, c', calls) \<and> calls \<noteq> [] \<and> hd calls = Libc_free 8 \<and> X509_free 8 \<notin> set calls"
proof -
  let ?c = "set_slot 0 (Some 8) (Some 9) zero_ctxt"
  obtain rv c' calls where r: "setCertificateRaw sample_ctx_env (Some 21) (Some 22) 0 ?c = (rv, c', calls)"
    by (rule prod_cases3)
  have "c_certs ?c ! nat 0 = Some 8" by (simp add: set_slot_def zero_ctxt_def SSL_AIDX_MAX_def)
  from setCertificateRaw_libc_free [OF r _ _ this] r show ?thesis by simp
qed

text \<open>
  C40: when OpenSSL takes every certificate, a chain file is loaded completely and in order
  behind the certificate that may be skipped, and the result is their number. An error that
  OpenSSL's queue already held makes the result -1 although all certificates were installed.
\<close>

theorem SSL_CTX_use_certificate_chain_result:
  assumes "h_bio_new h" and "h_open h" and "\<forall>x \<in> set (h_certs h). add_ok x"
    and "skipfirst \<longrightarrow> h_certs h \<noteq> []"
  shows "SSL_CTX_use_certificate_chain add_ok h skipfirst =
    (if \<not> hd (h_queue h @ [True]) then -1
     else int (length (h_certs h)) - (if skipfirst then 1 else 0),
     (if skipfirst then [X509_free (hd (h_certs h))] else []) @ [CTX_clear_extra_chain] @
     map CTX_add_chain_cert (if skipfirst then tl (h_certs h) else h_certs h))"
proof -
  have "\<forall>x \<in> set (tl (h_certs h)). add_ok x"
    using assms(3) by (cases "h_certs h") auto
  then show ?thesis
    using assms add_extra_chain_all [of "tl (h_certs h)" add_ok 0] add_extra_chain_all [of "h_certs h" add_ok 0]
    by (auto simp: SSL_CTX_use_certificate_chain_def Let_def Suc_le_eq)
qed

theorem SSL_CTX_use_certificate_chain_result_witness:
  "SSL_CTX_use_certificate_chain (\<lambda>_. True)
     \<lparr>h_bio_new = True, h_open = True, h_certs = [1, 2, 3], h_queue = []\<rparr> True =
   (2, [X509_free 1, CTX_clear_extra_chain, CTX_add_chain_cert 2, CTX_add_chain_cert 3])"
  using SSL_CTX_use_certificate_chain_result
    [of "\<lparr>h_bio_new = True, h_open = True, h_certs = [1, 2, 3], h_queue = []\<rparr>" "\<lambda>_. True" True]
  by simp

end
