(* ===== verification/Ocsp_Url.thy ===== *)
theory Ocsp_Url
  imports C_Model
begin

unbundle bit_operations_syntax

text \<open>
  The hand-written DER parser of \<^verbatim>\<open>native/src/sslutils.c\<close> that collects the OCSP
  responder URLs of a certificate's authority information access extension:
  \<open>parse_asn1_length\<close>, \<open>parse_ocsp_url\<close>, \<open>parse_ASN1_OID\<close>,
  \<open>parse_ASN1_Sequence\<close>, \<open>decode_OCSP_url\<close> and \<open>apr_xrealloc\<close>.

  The buffer is a byte list and \<open>asn1\<close> an offset into it; reading behind the buffer is a
  fault. The \<open>char **\<close> array of URLs is the list of its slots; it is allocated for exactly
  as many slots as there are URLs, and a store to a slot behind the allocation is recorded
  with its index and the number of slots (\<open>stray\<close>) instead of ending the run, since the
  pool memory behind the array usually exists. Allocation is a parameter: whether
  \<open>apr_palloc\<close> returns memory for a size.
\<close>

section \<open>The parser\<close>

definition ASN1_SEQUENCE :: byte where "ASN1_SEQUENCE = 0x30"
definition ASN1_OID :: byte where "ASN1_OID = 0x06"
definition ASN1_STRING :: byte where "ASN1_STRING = 0x86"

definition OCSP_OID :: "byte list" where
  "OCSP_OID = [0x2b, 0x06, 0x01, 0x05, 0x05, 0x07, 0x30, 0x01]"

record url_array =
  ua_slots :: "byte list option list"
  ua_stray :: "(nat \<times> nat) list"

text \<open>\<open>while (i > 0) { l <<= 8; (*asn1)++; l += **asn1; i--; }\<close>\<close>

primrec asn1_length_bytes :: "nat \<Rightarrow> byte list \<Rightarrow> nat \<Rightarrow> nat \<Rightarrow> (nat \<times> nat) run" where
  "asn1_length_bytes 0 m j l = Inr (l, j)"
| "asn1_length_bytes (Suc k) m j l =
     run_bind (rd m (Suc j)) (\<lambda>b. asn1_length_bytes k m (Suc j) (l * 256 + unat b))"

text \<open>
  \<open>asn1\<close> points to the tag; the result is the position of the data and the length, or
  \<open>None\<close> for the return value 1.
\<close>

definition parse_asn1_length :: "byte list \<Rightarrow> nat \<Rightarrow> (nat \<times> nat) option run" where
  "parse_asn1_length m asn1 =
     run_bind (rd m (Suc asn1)) (\<lambda>b.
     if b AND 0x80 \<noteq> 0 then
       (let i = unat (b AND 0x7F) in
        if i = 0 then Inr None
        else if i > 3 then Inr None
        else run_bind (asn1_length_bytes i m (Suc asn1) 0) (\<lambda>(l, j). Inr (Some (Suc j, l))))
     else Inr (Some (Suc (Suc asn1), unat b)))"

text \<open>
  The functions below return the error flag and the array. A pointer has 8 bytes. After
  \<open>apr_xrealloc\<close> the array has \<open>new_nocsp_urls\<close> slots, and the next statement stores
  NULL to the slot with that index.
\<close>

definition apr_xrealloc ::
  "(nat \<Rightarrow> bool) \<Rightarrow> byte list option list \<Rightarrow> nat \<Rightarrow> byte list option list option" where
  "apr_xrealloc palloc_ok buf n =
     (if palloc_ok (n * 8) then Some (buf @ replicate (n - length buf) None) else None)"

definition parse_ocsp_url ::
  "(nat \<Rightarrow> bool) \<Rightarrow> byte list \<Rightarrow> nat \<Rightarrow> url_array \<Rightarrow> (bool \<times> url_array) run" where
  "parse_ocsp_url palloc_ok m asn1 u =
     run_bind (rd m asn1) (\<lambda>tag.
     if tag = ASN1_STRING then
       run_bind (parse_asn1_length m asn1) (\<lambda>r.
       case r of
         None \<Rightarrow> Inr (True, u)
       | Some (asn1', len) \<Rightarrow>
           (let new_nocsp_urls = length (ua_slots u) + 1 in
            case apr_xrealloc palloc_ok (ua_slots u) new_nocsp_urls of
              None \<Rightarrow> Inr (True, u)
            | Some new_ocsp_urls \<Rightarrow>
              (let u1 = u\<lparr>ua_slots := new_ocsp_urls,
                         ua_stray := ua_stray u @ [(new_nocsp_urls, new_nocsp_urls)]\<rparr> in
               if \<not> palloc_ok (len + 1) then Inr (True, u1)
               else run_bind (rdn m asn1' len) (\<lambda>url.
                 Inr (False, u1\<lparr>ua_slots := (ua_slots u1)[new_nocsp_urls - 1 := Some url]\<rparr>)))))
     else Inr (False, u))"

definition parse_ASN1_OID ::
  "(nat \<Rightarrow> bool) \<Rightarrow> byte list \<Rightarrow> nat \<Rightarrow> url_array \<Rightarrow> (bool \<times> url_array) run" where
  "parse_ASN1_OID palloc_ok m asn1 u =
     run_bind (parse_asn1_length m asn1) (\<lambda>r.
     case r of
       None \<Rightarrow> Inr (True, u)
     | Some (asn1', len) \<Rightarrow>
         (if len = 8 then
            run_bind (rdn m asn1' 8) (\<lambda>oid.
            if oid = OCSP_OID then parse_ocsp_url palloc_ok m (asn1' + len) u
            else Inr (False, u))
          else Inr (False, u)))"

lemma asn1_length_bytes_pos: "asn1_length_bytes k m j l = Inr (l', j') \<Longrightarrow> j' = j + k"
  by (induction k arbitrary: j l) (fastforce simp: run_bind_Inr_iff)+

lemma parse_asn1_length_pos: "parse_asn1_length m i = Inr (Some (j, len)) \<Longrightarrow> Suc i < j"
  by (auto simp: parse_asn1_length_def Let_def run_bind_Inr_iff split: if_splits
      dest!: asn1_length_bytes_pos)

lemma asn1_length_bytes_bound:
  "asn1_length_bytes k m j l = Inr (l', j') \<Longrightarrow> l' < (l + 1) * 256 ^ k"
proof (induction k arbitrary: j l)
  case (Suc k)
  then obtain b :: byte where "asn1_length_bytes k m (Suc j) (l * 256 + unat b) = Inr (l', j')"
    by (auto simp only: asn1_length_bytes.simps run_bind_Inr_iff)
  then have "l' < (l * 256 + unat b + 1) * 256 ^ k" by (rule Suc.IH)
  also have "\<dots> \<le> ((l + 1) * 256) * 256 ^ k"
    by (intro mult_right_mono) (use unat_byte_le [of b] in auto)
  finally show ?case by (simp add: algebra_simps)
qed auto

text \<open>
  One call of \<open>parse_ASN1_Sequence\<close>, its \<open>while\<close> loop included. A sequence is parsed by a
  recursive call that is not told where the sequence ends.
\<close>

function parse_ASN1_Sequence ::
  "(nat \<Rightarrow> bool) \<Rightarrow> byte list \<Rightarrow> nat \<Rightarrow> url_array \<Rightarrow> (bool \<times> url_array) run" where
  "parse_ASN1_Sequence palloc_ok m asn1 u =
     run_bind (rd m asn1) (\<lambda>tag.
     if tag = 0 then Inr (False, u)
     else if tag = ASN1_SEQUENCE then
       run_bind (parse_asn1_length m asn1) (\<lambda>r.
       case r of
         None \<Rightarrow> Inr (True, u)
       | Some (asn1', len) \<Rightarrow>
           run_bind (parse_ASN1_Sequence palloc_ok m asn1' u) (\<lambda>(err, u').
           if err then Inr (True, u')
           else parse_ASN1_Sequence palloc_ok m (asn1' + len) u'))
     else if tag = ASN1_OID then parse_ASN1_OID palloc_ok m asn1 u
     else Inr (True, u))"
  by pat_completeness auto
termination
  by (relation "measure (\<lambda>(_, m, i, _). length m - i)")
    (auto simp: rd_Inr_iff dest!: parse_asn1_length_pos)

declare parse_ASN1_Sequence.simps [simp del]

text \<open>
  \<open>decode_OCSP_url\<close>: the result pointer, the number of URLs and the array. The first
  allocation is not checked, the second is.
\<close>

definition decode_OCSP_url ::
  "(nat \<Rightarrow> bool) \<Rightarrow> byte list \<Rightarrow> (byte list option list option \<times> url_array) run" where
  "decode_OCSP_url palloc_ok os =
     (if \<not> palloc_ok (length os + 1) then Inl Null_Deref
      else if \<not> palloc_ok 8 then Inr (None, \<lparr>ua_slots = [], ua_stray = []\<rparr>)
      else run_bind (parse_ASN1_Sequence palloc_ok (os @ [0]) 0 \<lparr>ua_slots = [], ua_stray = []\<rparr>)
        (\<lambda>(err, u).
        if err \<or> length (ua_slots u) = 0 then Inr (None, u)
        else Inr (Some (ua_slots u), u)))"

section \<open>DER as the parser should see it\<close>

text \<open>The length octets of DER, for lengths the parser admits.\<close>

definition der_len :: "nat \<Rightarrow> byte list" where
  "der_len n =
     (if n < 128 then [word_of_nat n]
      else if n < 256 then [0x81, word_of_nat n]
      else if n < 65536 then [0x82, word_of_nat (n div 256), word_of_nat (n mod 256)]
      else [0x83, word_of_nat (n div 65536), word_of_nat (n div 256 mod 256), word_of_nat (n mod 256)])"

definition der_tlv :: "byte \<Rightarrow> byte list \<Rightarrow> byte list" where
  "der_tlv tag content = tag # der_len (length content) @ content"

text \<open>An access description: method, and a general name as tag and content.\<close>

record access_description =
  ad_method :: "byte list"
  ad_tag :: byte
  ad_location :: "byte list"

definition access_der :: "access_description \<Rightarrow> byte list" where
  "access_der a = der_tlv ASN1_SEQUENCE (der_tlv ASN1_OID (ad_method a) @ der_tlv (ad_tag a) (ad_location a))"

definition aia_der :: "access_description list \<Rightarrow> byte list" where
  "aia_der as = der_tlv ASN1_SEQUENCE (concat (map access_der as))"

definition ocsp_uris :: "access_description list \<Rightarrow> byte list list" where
  "ocsp_uris as = map ad_location (filter (\<lambda>a. ad_method a = OCSP_OID \<and> ad_tag a = ASN1_STRING) as)"

section \<open>Lengths\<close>

lemma byte_of_nat_high_bit:
  assumes "n < 128"
  shows "(word_of_nat n :: byte) AND 0x80 = 0"
proof -
  have "\<not> bit (word_of_nat n :: byte) 7"
    using assms bit_unsigned_iff [of "word_of_nat n :: byte" 7, where ?'a = nat]
    by (simp add: unat_of_nat bit_iff_odd [of n])
  then show ?thesis
    using and_exp_eq_0_iff_not_bit [of "word_of_nat n :: byte" 7] by simp
qed

text \<open>The parser reads back every length below \<open>2 ^ 24\<close>.\<close>

lemma nat_bytes3: "(n div 65536 * 256 + n div 256 mod 256) * 256 + n mod 256 = (n :: nat)"
proof -
  have "n div 65536 = n div 256 div 256"
    by (simp add: div_mult2_eq [symmetric])
  then show ?thesis by (simp add: div_mult_mod_eq)
qed

lemma asn1_length_bytes_list:
  "asn1_length_bytes (length bs) (xs @ x # bs @ post) (length xs) l
    = Inr (foldl (\<lambda>a b. a * 256 + unat b) l bs, length xs + length bs)"
proof (induction bs arbitrary: xs x l)
  case (Cons b bs)
  then show ?case
    using Cons.IH [of "xs @ [x]" b "l * 256 + unat b"] by (simp add: rd_append_Cons rd_append)
qed simp

lemma parse_asn1_length_long:
  assumes "b AND 0x80 \<noteq> 0" and "unat (b AND 0x7F) = length bs" and "bs \<noteq> []" and "length bs \<le> 3"
  shows "parse_asn1_length (pre @ tag # (b # bs) @ post) (length pre)
    = Inr (Some (length pre + 2 + length bs, foldl (\<lambda>a b. a * 256 + unat b) 0 bs))"
  using asn1_length_bytes_list [of bs "pre @ [tag]" b post 0] assms
  by (simp add: parse_asn1_length_def Let_def rd_append_Cons rd_append)

lemma parse_asn1_length_der:
  assumes "n < 16777216"
  shows "parse_asn1_length (pre @ tag # der_len n @ post) (length pre)
    = Inr (Some (length pre + 1 + length (der_len n), n))"
proof -
  consider "n < 128" | "128 \<le> n" "n < 256" | "256 \<le> n" "n < 65536" | "65536 \<le> n"
    by linarith
  then show ?thesis
  proof cases
    case 1
    then show ?thesis
      by (simp add: parse_asn1_length_def der_len_def rd_append_Cons rd_append byte_of_nat_high_bit unat_of_nat)
  next
    case 2
    then show ?thesis
      using parse_asn1_length_long [of "0x81" "[word_of_nat n]" pre tag post]
      by (simp add: der_len_def unat_of_nat)
  next
    case 3
    then have "n div 256 < 256" by (simp add: div_less_iff_less_mult)
    with 3 show ?thesis
      using parse_asn1_length_long [of "0x82" "[word_of_nat (n div 256), word_of_nat (n mod 256)]" pre tag post]
      by (simp add: der_len_def unat_of_nat)
  next
    case 4
    then have "n div 65536 < 256" using assms by (simp add: div_less_iff_less_mult)
    with 4 show ?thesis
      using nat_bytes3 [of n] parse_asn1_length_long [of "0x83"
          "[word_of_nat (n div 65536), word_of_nat (n div 256 mod 256), word_of_nat (n mod 256)]" pre tag post]
      by (simp add: der_len_def unat_of_nat)
  qed
qed

section \<open>One tag-length-value triple\<close>

lemma length_der_tlv: "length (der_tlv t c) = Suc (length (der_len (length c))) + length c"
  by (simp add: der_tlv_def)

lemma parse_tlv:
  assumes "length c < 16777216"
  shows "parse_asn1_length (pre @ der_tlv t c @ post) (length pre)
    = Inr (Some (length (pre @ t # der_len (length c)), length c))"
  using parse_asn1_length_der [OF assms, of pre t "c @ post"] by (simp add: der_tlv_def)

lemma rd_tlv: "rd (pre @ der_tlv t c @ post) (length pre) = Inr t"
  by (simp add: der_tlv_def rd_append)

lemma rdn_tlv:
  "rdn (pre @ der_tlv t c @ post) (length (pre @ t # der_len (length c))) (length c) = Inr c"
  using rdn_append(1) [of c "length c" "pre @ t # der_len (length c)" post] by (simp add: der_tlv_def)

lemma end_tlv: "length (pre @ t # der_len (length c)) + length c = length (pre @ der_tlv t c)"
  by (simp add: der_tlv_def)

text \<open>What one accepted URL adds to the array.\<close>

definition add_url :: "url_array \<Rightarrow> byte list \<Rightarrow> url_array" where
  "add_url u url = u\<lparr>ua_slots := ua_slots u @ [Some url],
     ua_stray := ua_stray u @ [(length (ua_slots u) + 1, length (ua_slots u) + 1)]\<rparr>"

definition add_access :: "url_array \<Rightarrow> access_description \<Rightarrow> url_array" where
  "add_access u a =
     (if ad_method a = OCSP_OID \<and> ad_tag a = ASN1_STRING then add_url u (ad_location a) else u)"

lemma parse_ocsp_url_tlv:
  assumes "length c < 16777216"
  shows "parse_ocsp_url (\<lambda>_. True) (pre @ der_tlv t c @ post) (length pre) u
    = Inr (False, if t = ASN1_STRING then add_url u c else u)"
  by (simp add: parse_ocsp_url_def apr_xrealloc_def rd_tlv parse_tlv [OF assms] rdn_tlv Let_def add_url_def
      del: length_append)

lemma parse_ASN1_OID_access:
  assumes "length (ad_method a) < 16777216" and "length (ad_location a) < 16777216"
  shows "parse_ASN1_OID (\<lambda>_. True)
      (pre @ der_tlv ASN1_OID (ad_method a) @ der_tlv (ad_tag a) (ad_location a) @ post) (length pre) u
    = Inr (False, add_access u a)"
proof -
  let ?m = "pre @ der_tlv ASN1_OID (ad_method a) @ der_tlv (ad_tag a) (ad_location a) @ post"
  obtain p where p: "p = length (pre @ ASN1_OID # der_len (length (ad_method a)))"
    by blast
  have 1: "parse_asn1_length ?m (length pre) = Inr (Some (p, length (ad_method a)))"
    using parse_tlv [OF assms(1)] p by simp
  have 2: "rdn ?m p (length (ad_method a)) = Inr (ad_method a)"
    using rdn_tlv [of pre ASN1_OID "ad_method a"] p by simp
  have "p + length (ad_method a) = length (pre @ der_tlv ASN1_OID (ad_method a))"
    using end_tlv [of pre ASN1_OID "ad_method a"] p by simp
  then have 3: "parse_ocsp_url (\<lambda>_. True) ?m (p + length (ad_method a)) u
      = Inr (False, if ad_tag a = ASN1_STRING then add_url u (ad_location a) else u)"
    using parse_ocsp_url_tlv [OF assms(2), of "pre @ der_tlv ASN1_OID (ad_method a)"] by simp
  have "length OCSP_OID = 8"
    by (simp add: OCSP_OID_def)
  then show ?thesis
    unfolding parse_ASN1_OID_def 1 run_bind.simps option.case prod.case
    using 2 3 by (cases "length (ad_method a) = 8") (auto simp: add_access_def)
qed

text \<open>The content of an access description ends the recursive call, its end is found by length.\<close>

lemma tags_distinct: "ASN1_SEQUENCE \<noteq> 0" "ASN1_OID \<noteq> 0" "ASN1_OID \<noteq> ASN1_SEQUENCE"
  by (simp_all add: ASN1_SEQUENCE_def ASN1_OID_def)

definition access_fits :: "access_description \<Rightarrow> bool" where
  "access_fits a \<longleftrightarrow> length (access_der a) < 16777216"

lemma access_fitsD:
  assumes "access_fits a"
  shows "length (ad_method a) < 16777216" and "length (ad_location a) < 16777216"
    and "length (der_tlv ASN1_OID (ad_method a) @ der_tlv (ad_tag a) (ad_location a)) < 16777216"
  using assms by (simp_all add: access_fits_def access_der_def length_der_tlv)

lemma parse_ASN1_Sequence_access:
  assumes "access_fits a"
  shows "parse_ASN1_Sequence (\<lambda>_. True) (pre @ access_der a @ post) (length pre) u
    = parse_ASN1_Sequence (\<lambda>_. True) (pre @ access_der a @ post) (length (pre @ access_der a))
        (add_access u a)"
proof -
  let ?c = "der_tlv ASN1_OID (ad_method a) @ der_tlv (ad_tag a) (ad_location a)"
  let ?m = "pre @ access_der a @ post"
  let ?hd = "pre @ ASN1_SEQUENCE # der_len (length ?c)"
  have m: "?m = pre @ der_tlv ASN1_SEQUENCE ?c @ post" "?m = ?hd @ ?c @ post"
    by (simp_all add: access_der_def der_tlv_def [of ASN1_SEQUENCE])
  have "rd ?m (length ?hd) = Inr ASN1_OID"
    using rd_tlv [of ?hd ASN1_OID "ad_method a"] m(2) by simp
  moreover have "parse_ASN1_OID (\<lambda>_. True) ?m (length ?hd) u = Inr (False, add_access u a)"
    using parse_ASN1_OID_access [OF access_fitsD(1,2) [OF assms], of ?hd post u] m(2) by simp
  ultimately have inner: "parse_ASN1_Sequence (\<lambda>_. True) ?m (length ?hd) u
      = Inr (False, add_access u a)"
    by (simp only: parse_ASN1_Sequence.simps [of _ _ "length ?hd"] run_bind.simps tags_distinct
        if_False if_True simp_thms)
  have outer: "rd ?m (length pre) = Inr ASN1_SEQUENCE"
    "parse_asn1_length ?m (length pre) = Inr (Some (length ?hd, length ?c))"
    "length ?hd + length ?c = length (pre @ access_der a)"
    using rd_tlv [of pre ASN1_SEQUENCE ?c post] parse_tlv [OF access_fitsD(3) [OF assms]] end_tlv
    by (simp_all only: m(1) access_der_def)
  show ?thesis
    by (subst parse_ASN1_Sequence.simps)
      (simp only: outer(1,2) run_bind.simps tags_distinct if_False if_True simp_thms option.case
        inner prod.case outer(3))
qed

section \<open>A whole extension\<close>

lemma ocsp_uris_simps [simp]:
  "ocsp_uris [] = []"
  "ocsp_uris (a # as) =
     (if ad_method a = OCSP_OID \<and> ad_tag a = ASN1_STRING then ad_location a # ocsp_uris as
      else ocsp_uris as)"
  by (simp_all add: ocsp_uris_def)

lemma foldl_add_access:
  "foldl add_access u as =
     u\<lparr>ua_slots := ua_slots u @ map Some (ocsp_uris as),
       ua_stray := ua_stray u @ map (\<lambda>k. (k, k))
         [length (ua_slots u) + 1..<length (ua_slots u) + 1 + length (ocsp_uris as)]\<rparr>"
proof (induction as arbitrary: u)
  case (Cons a as)
  show ?case
  proof (cases "ad_method a = OCSP_OID \<and> ad_tag a = ASN1_STRING")
    case True
    then show ?thesis
      using Cons.IH [of "add_url u (ad_location a)"]
      by (simp add: add_access_def add_url_def upt_conv_Cons del: upt_Suc)
  next
    case False
    then have "add_access u a = u" and "ocsp_uris (a # as) = ocsp_uris as"
      by (auto simp: add_access_def)
    then show ?thesis
      using Cons.IH [of u] by (simp only: foldl.simps)
  qed
qed simp

lemma parse_ASN1_Sequence_accesses:
  assumes "\<forall>a \<in> set as. access_fits a"
  shows "parse_ASN1_Sequence (\<lambda>_. True) (pre @ concat (map access_der as) @ [0]) (length pre) u
    = Inr (False, foldl add_access u as)"
  using assms
proof (induction as arbitrary: pre u)
  case Nil
  then show ?case by (simp add: parse_ASN1_Sequence.simps rd_append)
next
  case (Cons a as)
  then show ?case
    using parse_ASN1_Sequence_access [of a pre "concat (map access_der as) @ [0]" u]
      Cons.IH [of "pre @ access_der a" "add_access u a"]
    by simp
qed

definition aia_fits :: "access_description list \<Rightarrow> bool" where
  "aia_fits as \<longleftrightarrow> length (concat (map access_der as)) < 16777216"

lemma aia_fits_access: "aia_fits as \<Longrightarrow> a \<in> set as \<Longrightarrow> access_fits a"
proof -
  assume "aia_fits as" and "a \<in> set as"
  moreover from \<open>a \<in> set as\<close> have "length (access_der a) \<le> length (concat (map access_der as))"
    by (induction as) auto
  ultimately show ?thesis by (simp add: aia_fits_def access_fits_def)
qed

lemma parse_aia:
  assumes "aia_fits as"
  shows "parse_ASN1_Sequence (\<lambda>_. True) (aia_der as @ [0]) 0 u = Inr (False, foldl add_access u as)"
proof -
  let ?c = "concat (map access_der as)"
  let ?hd = "ASN1_SEQUENCE # der_len (length ?c)"
  have m: "aia_der as @ [0] = ?hd @ ?c @ [0]"
    by (simp add: aia_der_def der_tlv_def)
  have 1: "rd (?hd @ ?c @ [0]) 0 = Inr ASN1_SEQUENCE"
    by (simp add: rd_append)
  have 2: "parse_asn1_length (?hd @ ?c @ [0]) 0 = Inr (Some (length ?hd, length ?c))"
    using parse_tlv [of ?c "[]" ASN1_SEQUENCE "[0]"] assms by (simp add: aia_fits_def der_tlv_def)
  have 3: "parse_ASN1_Sequence (\<lambda>_. True) (?hd @ ?c @ [0]) (length ?hd) u = Inr (False, foldl add_access u as)"
    using assms aia_fits_access by (intro parse_ASN1_Sequence_accesses) blast
  have 4: "rd (?hd @ ?c @ [0]) (length ?hd + length ?c) = Inr 0"
    using rd_append(1) [of "?hd @ ?c" 0 "[]"] by simp
  show ?thesis
    unfolding m
    by (subst parse_ASN1_Sequence.simps)
      (simp only: 1 2 3 run_bind.simps tags_distinct if_False if_True simp_thms option.case prod.case
        parse_ASN1_Sequence.simps [of _ _ "length ?hd + length ?c"] 4)
qed

section \<open>What every run keeps\<close>

text \<open>Each slot of the array has its stray store, at an index not below the number of slots.\<close>

definition stray_per_slot :: "url_array \<Rightarrow> bool" where
  "stray_per_slot u \<longleftrightarrow> length (ua_stray u) = length (ua_slots u) \<and> list_all (\<lambda>(i, n). n \<le> i) (ua_stray u)"

lemma parse_ocsp_url_stray:
  "parse_ocsp_url ok m i u = Inr (err, u') \<Longrightarrow> stray_per_slot u \<Longrightarrow> stray_per_slot u'"
  by (auto simp: parse_ocsp_url_def apr_xrealloc_def stray_per_slot_def Let_def elim!: run_bind_InrE
      split: if_split_asm option.split_asm)

lemma parse_ASN1_OID_stray:
  assumes "parse_ASN1_OID ok m i u = Inr (err, u')" and "stray_per_slot u"
  shows "stray_per_slot u'"
proof -
  from assms(1) have "u' = u \<or> (\<exists>j. parse_ocsp_url ok m j u = Inr (err, u'))"
    by (auto simp: parse_ASN1_OID_def elim!: run_bind_InrE split: if_split_asm option.split_asm)
  then show ?thesis using assms(2) parse_ocsp_url_stray by auto
qed

lemma parse_ASN1_Sequence_stray:
  "parse_ASN1_Sequence ok m i u = Inr (err, u') \<Longrightarrow> stray_per_slot u \<Longrightarrow> stray_per_slot u'"
proof (induction ok m i u arbitrary: err u' rule: parse_ASN1_Sequence.induct)
  case (1 ok m i u)
  obtain tag where tag: "rd m i = Inr tag"
    using "1.prems"(1) by (subst (asm) parse_ASN1_Sequence.simps) (auto elim!: run_bind_InrE)
  consider "u' = u" | "parse_ASN1_OID ok m i u = Inr (err, u')"
    | j len where "tag \<noteq> 0" "tag = ASN1_SEQUENCE" "parse_asn1_length m i = Inr (Some (j, len))"
      "parse_ASN1_Sequence ok m j u = Inr (True, u')"
    | j len u1 where "tag \<noteq> 0" "tag = ASN1_SEQUENCE" "parse_asn1_length m i = Inr (Some (j, len))"
      "parse_ASN1_Sequence ok m j u = Inr (False, u1)"
      "parse_ASN1_Sequence ok m (j + len) u1 = Inr (err, u')"
    using "1.prems"(1) tag
    by (subst (asm) parse_ASN1_Sequence.simps)
      (auto elim!: run_bind_InrE split: if_split_asm option.split_asm)
  then show ?case
  proof cases
    case 1
    then show ?thesis using "1.prems"(2) by simp
  next
    case 2
    then show ?thesis using "1.prems"(2) by (rule parse_ASN1_OID_stray)
  next
    case 3
    then show ?thesis using "1.IH"(1) [OF tag 3(1-3) refl refl 3(4)] "1.prems"(2) by simp
  next
    case 4
    then show ?thesis
      using "1.IH"(1) [OF tag 4(1-3) refl refl 4(4) "1.prems"(2)]
        "1.IH"(2) [OF tag 4(1-3) refl refl 4(4) refl _ 4(5)] by simp
  qed
qed

section \<open>Repeated work\<close>

text \<open>
  The number of loop iterations of \<open>parse_ASN1_Sequence\<close>, those of its recursive calls
  included. After the recursive call for a sequence the loop goes on at the end of that
  sequence, which the recursive call did not respect: what follows is parsed twice.
\<close>

function asn1_iterations ::
  "(nat \<Rightarrow> bool) \<Rightarrow> byte list \<Rightarrow> nat \<Rightarrow> url_array \<Rightarrow> nat" where
  "asn1_iterations ok m i u =
     (case rd m i of
        Inl _ \<Rightarrow> 0
      | Inr tag \<Rightarrow>
          if tag = 0 then 0
          else if tag = ASN1_SEQUENCE then
            (case parse_asn1_length m i of
               Inl _ \<Rightarrow> 1
             | Inr None \<Rightarrow> 1
             | Inr (Some (j, len)) \<Rightarrow>
                 1 + asn1_iterations ok m j u +
                 (case parse_ASN1_Sequence ok m j u of
                    Inl _ \<Rightarrow> 0
                  | Inr (err, u') \<Rightarrow> if err then 0 else asn1_iterations ok m (j + len) u'))
          else 1)"
  by pat_completeness auto
termination
  by (relation "measure (\<lambda>(_, m, i, _). length m - i)")
    (auto simp: rd_Inr_iff dest!: parse_asn1_length_pos)

declare asn1_iterations.simps [simp del]

text \<open>\<open>k\<close> empty sequences in a row.\<close>

definition empty_seqs :: "nat \<Rightarrow> byte list" where
  "empty_seqs k = concat (replicate k [ASN1_SEQUENCE, 0])"

lemma empty_seqs_Suc [simp]:
  "empty_seqs 0 = []" "empty_seqs (Suc k) = ASN1_SEQUENCE # 0 # empty_seqs k"
  by (simp_all add: empty_seqs_def)

lemma parse_asn1_length_empty:
  "parse_asn1_length (pre @ ASN1_SEQUENCE # 0 # post) (length pre) = Inr (Some (length pre + 2, 0))"
  by (simp add: parse_asn1_length_def rd_append_Cons rd_append)

lemma parse_empty_seqs:
  "parse_ASN1_Sequence ok (pre @ empty_seqs k @ [0]) (length pre) u = Inr (False, u)"
proof (induction k arbitrary: pre)
  case 0
  then show ?case by (simp add: parse_ASN1_Sequence.simps rd_append)
next
  case (Suc k)
  show ?case
    using Suc.IH [of "pre @ [ASN1_SEQUENCE, 0]"]
    by (subst parse_ASN1_Sequence.simps)
      (simp add: rd_append tags_distinct parse_asn1_length_empty)
qed

lemma asn1_iterations_empty_seqs:
  "asn1_iterations ok (pre @ empty_seqs k @ [0]) (length pre) u + 1 = 2 ^ k"
proof (induction k arbitrary: pre)
  case 0
  then show ?case by (simp add: asn1_iterations.simps rd_append)
next
  case (Suc k)
  show ?case
    using Suc.IH [of "pre @ [ASN1_SEQUENCE, 0]"] parse_empty_seqs [of ok "pre @ [ASN1_SEQUENCE, 0]" k u]
    by (subst asn1_iterations.simps)
      (simp add: rd_append tags_distinct parse_asn1_length_empty)
qed

text \<open>In memory that ends in a NUL, every entry of the loop takes two bytes off what is left.\<close>

lemma asn1_iterations_bound:
  assumes "length m = Suc n" and "m ! n = 0"
  shows "asn1_iterations ok m i u < 2 ^ ((length m - i) div 2)"
  using assms
proof (induction ok m i u rule: asn1_iterations.induct)
  case (1 ok m i u)
  consider "length m \<le> i" | "i < length m" "m ! i = 0" | "i < n" "m ! i \<noteq> 0"
    using 1(3,4) by (metis less_SucE not_less)
  then show ?case
  proof cases
    case 3
    let ?e = "(length m - (i + 2)) div 2"
    have "length m - i = length m - (i + 2) + 2" using 3(1) 1(3) by simp
    then have e: "(2 :: nat) ^ ((length m - i) div 2) = 2 * 2 ^ ?e" by simp
    have tag: "rd m i = Inr (m ! i)" using 3(1) 1(3) by (simp add: rd_def)
    show ?thesis
    proof (cases "\<exists>j len. m ! i = ASN1_SEQUENCE \<and> parse_asn1_length m i = Inr (Some (j, len))")
      case False
      then have "asn1_iterations ok m i u = 1"
        using 3(2) by (subst asn1_iterations.simps) (auto simp: tag split: sum.split option.split)
      moreover have "0 < (2 :: nat) ^ ?e" by simp
      ultimately show ?thesis using e by linarith
    next
      case True
      then obtain j len where p: "m ! i = ASN1_SEQUENCE" "parse_asn1_length m i = Inr (Some (j, len))" by blast
      have j: "i + 2 \<le> j" using parse_asn1_length_pos [OF p(2)] by simp
      have pow: "asn1_iterations ok m k v < 2 ^ ?e"
        if "asn1_iterations ok m k v < 2 ^ ((length m - k) div 2)" "j \<le> k" for k v
      proof -
        have "(length m - k) div 2 \<le> ?e" using that(2) j by (intro div_le_mono) simp
        then show ?thesis using that(1) by (meson less_le_trans one_le_numeral power_increasing)
      qed
      have a: "asn1_iterations ok m j u < 2 ^ ?e"
        using "1.IH"(1) [OF tag 3(2) p(1) p(2)] 1(3,4) by (intro pow) auto
      have b: "(case parse_ASN1_Sequence ok m j u of Inl _ \<Rightarrow> 0
          | Inr (err, u') \<Rightarrow> if err then 0 else asn1_iterations ok m (j + len) u') < (2 :: nat) ^ ?e"
      proof (cases "\<exists>u'. parse_ASN1_Sequence ok m j u = Inr (False, u')")
        case True
        then obtain u' where u': "parse_ASN1_Sequence ok m j u = Inr (False, u')" by blast
        have "asn1_iterations ok m (j + len) u' < 2 ^ ((length m - (j + len)) div 2)"
          by (rule "1.IH"(2) [OF tag 3(2) p(1) p(2)]) ((rule notI, assumption) | (use u' 1(3,4) in simp))+
        then show ?thesis using u' pow [of "j + len" u'] by simp
      next
        case False
        then show ?thesis by (auto split: sum.split prod.split)
      qed
      have "asn1_iterations ok m i u = 1 + asn1_iterations ok m j u +
          (case parse_ASN1_Sequence ok m j u of Inl _ \<Rightarrow> 0
           | Inr (err, u') \<Rightarrow> if err then 0 else asn1_iterations ok m (j + len) u')"
        using 3(2) p by (subst asn1_iterations.simps) (simp add: tag tags_distinct)
      then show ?thesis using a b e by linarith
    qed
  qed (simp_all add: asn1_iterations.simps rd_def)
qed

section \<open>Properties\<close>

text \<open>
  C8: the parser collects exactly the OCSP responder URLs of a well-formed authority
  information access extension, in order: the locations of the access descriptions whose
  method is the OCSP object identifier and whose location is a URI. With no such location
  the result is NULL.
\<close>

theorem decode_OCSP_url_aia:
  assumes "aia_fits as"
  shows "decode_OCSP_url (\<lambda>_. True) (aia_der as) =
    Inr (if ocsp_uris as = [] then None else Some (map Some (ocsp_uris as)),
         \<lparr>ua_slots = map Some (ocsp_uris as),
          ua_stray = map (\<lambda>k. (k, k)) [1..<Suc (length (ocsp_uris as))]\<rparr>)"
  using parse_aia [OF assms] by (simp add: decode_OCSP_url_def foldl_add_access)

theorem decode_OCSP_url_aia_witness:
  "decode_OCSP_url (\<lambda>_. True)
     (aia_der [\<lparr>ad_method = [1, 2, 3], ad_tag = 0x86, ad_location = [104]\<rparr>,
               \<lparr>ad_method = OCSP_OID, ad_tag = 0x86, ad_location = [104, 105]\<rparr>]) =
   Inr (Some [Some [104, 105]], \<lparr>ua_slots = [Some [104, 105]], ua_stray = [(1, 1)]\<rparr>)"
  using decode_OCSP_url_aia [of "[\<lparr>ad_method = [1, 2, 3], ad_tag = 0x86, ad_location = [104]\<rparr>,
      \<lparr>ad_method = OCSP_OID, ad_tag = 0x86, ad_location = [104, 105]\<rparr>]"]
  by (simp add: aia_fits_def access_der_def der_tlv_def der_len_def OCSP_OID_def ASN1_STRING_def)

text \<open>
  For every extension, well formed or not, and every allocator: when the parser returns
  URLs it has stored NULL behind the end of the array once per URL, the store being meant for
  a terminator for which no slot was allocated.
\<close>

theorem decode_OCSP_url_stray_store:
  assumes "decode_OCSP_url ok os = Inr (Some urls, u)"
  shows "urls \<noteq> [] \<and> length (ua_stray u) = length urls \<and> (\<forall>(i, n) \<in> set (ua_stray u). n \<le> i)"
proof -
  obtain err where "parse_ASN1_Sequence ok (os @ [0]) 0 \<lparr>ua_slots = [], ua_stray = []\<rparr> = Inr (err, u)"
    and urls: "urls = ua_slots u" "urls \<noteq> []"
    using assms by (auto simp: decode_OCSP_url_def elim!: run_bind_InrE split: if_split_asm)
  then have "stray_per_slot u"
    by (rule_tac parse_ASN1_Sequence_stray) (auto simp: stray_per_slot_def)
  then show ?thesis
    using urls by (simp add: stray_per_slot_def list_all_iff)
qed

theorem decode_OCSP_url_stray_store_witness:
  "\<exists>urls u. decode_OCSP_url (\<lambda>_. True)
      (aia_der [\<lparr>ad_method = OCSP_OID, ad_tag = 0x86, ad_location = [104, 105]\<rparr>]) = Inr (Some urls, u) \<and>
    urls \<noteq> [] \<and> length (ua_stray u) = length urls"
proof -
  have r: "decode_OCSP_url (\<lambda>_. True)
      (aia_der [\<lparr>ad_method = OCSP_OID, ad_tag = 0x86, ad_location = [104, 105]\<rparr>])
    = Inr (Some [Some [104, 105]], \<lparr>ua_slots = [Some [104, 105]], ua_stray = [(1, 1)]\<rparr>)"
    by code_simp
  from decode_OCSP_url_stray_store [OF r] r show ?thesis by blast
qed

text \<open>
  The length of a URL is not compared with what is left of the extension: when it
  reaches behind the NUL that \<open>decode_OCSP_url\<close> appends, the copy of the URL reads behind
  the buffer.
\<close>

theorem decode_OCSP_url_overread:
  assumes "length url + 1 < n" and "n < 128" and "l1 < 128" and "l2 < 128"
  shows "decode_OCSP_url (\<lambda>_. True)
      ([ASN1_SEQUENCE, word_of_nat l1, ASN1_SEQUENCE, word_of_nat l2, ASN1_OID, 8] @ OCSP_OID
       @ [ASN1_STRING, word_of_nat n] @ url)
    = Inl Out_Of_Bounds"
proof -
  let ?m = "[ASN1_SEQUENCE, word_of_nat l1, ASN1_SEQUENCE, word_of_nat l2, ASN1_OID, 8] @ OCSP_OID
    @ [ASN1_STRING, word_of_nat n] @ url @ [0]"
  have oid: "length OCSP_OID = 8" by (simp add: OCSP_OID_def)
  have 1: "parse_ocsp_url (\<lambda>_. True) ?m 14 u = Inl Out_Of_Bounds" for u
    using assms(1) byte_of_nat_high_bit [OF assms(2)] assms(2) oid
    by (simp add: parse_ocsp_url_def apr_xrealloc_def parse_asn1_length_def rd_def rdn_def nth_append
        unat_of_nat)
  have 2: "parse_ASN1_OID (\<lambda>_. True) ?m 4 u = Inl Out_Of_Bounds" for u
    using 1 oid
    by (simp add: parse_ASN1_OID_def parse_asn1_length_def rd_def rdn_def)
  have 3: "parse_ASN1_Sequence (\<lambda>_. True) ?m 4 u = Inl Out_Of_Bounds" for u
    by (subst parse_ASN1_Sequence.simps) (simp add: rd_def tags_distinct 2 [simplified])
  have 4: "parse_ASN1_Sequence (\<lambda>_. True) ?m 2 u = Inl Out_Of_Bounds" for u
    using byte_of_nat_high_bit [OF assms(4)]
    by (subst parse_ASN1_Sequence.simps)
      (simp add: rd_def tags_distinct 3 [simplified] parse_asn1_length_def)
  have "parse_ASN1_Sequence (\<lambda>_. True) ?m 0 u = Inl Out_Of_Bounds" for u
    using byte_of_nat_high_bit [OF assms(3)]
    by (subst parse_ASN1_Sequence.simps)
      (simp add: rd_def tags_distinct 4 [simplified, unfolded numeral_2_eq_2] parse_asn1_length_def)
  then show ?thesis by (simp add: decode_OCSP_url_def)
qed

theorem decode_OCSP_url_overread_witness:
  "decode_OCSP_url (\<lambda>_. True)
      ([ASN1_SEQUENCE, word_of_nat 15, ASN1_SEQUENCE, word_of_nat 13, ASN1_OID, 8] @ OCSP_OID
       @ [ASN1_STRING, word_of_nat 100] @ [104])
    = Inl Out_Of_Bounds"
  by (rule decode_OCSP_url_overread) simp_all


end
