(* ===== verification/Ocsp_Verify.thy ===== *)
theory Ocsp_Verify
  imports Ocsp_Url Ocsp_Http Ssl_Types
begin

text \<open>
  The OCSP check and the certificate verification callback of
  \<^verbatim>\<open>native/src/sslutils.c\<close>: \<open>add_ocsp_cert\<close>, \<open>get_ocsp_request\<close>,
  \<open>process_ocsp_response\<close>, \<open>ssl_ocsp_request\<close>, \<open>ssl_verify_OCSP\<close> and
  \<open>SSL_callback_SSL_verify\<close>.

  What OpenSSL finds in certificates and responses is a parameter (\<open>ocsp_ssl\<close>); the
  responders are those of \<open>ocsp_net\<close>. The part of \<open>X509_STORE_CTX\<close> that the code reads
  and writes is its error, its error depth and the current certificate and issuer.
\<close>

section \<open>OpenSSL\<close>

text \<open>
  A single response: its status and the results of \<open>OCSP_check_validity\<close> with the age
  unlimited and limited. A basic response: the results of \<open>OCSP_check_nonce\<close> and, per
  flags, of \<open>OCSP_basic_verify\<close>, and the single response for a certificate id.
\<close>

record single_resp =
  sr_status :: int
  sr_valid :: int
  sr_recent :: int

record basic_resp =
  br_nonce :: int
  br_verify :: "int \<Rightarrow> int"
  br_find :: "byte list \<Rightarrow> single_resp option"

record ('c, 'r) ocsp_ssl =
  o_net :: "'r ocsp_net"
  o_self_issued :: "'c \<Rightarrow> bool"
  o_aia :: "'c \<Rightarrow> byte list option"
  o_request_new :: bool
  o_cert_to_id :: "'c \<Rightarrow> 'c \<Rightarrow> byte list option"
  o_add0_id :: bool
  o_request_der :: "byte list \<Rightarrow> byte list option"
  o_response_status :: "'r \<Rightarrow> int"
  o_basic :: "'r \<Rightarrow> basic_resp option"

record 'c store_ctx =
  sc_error :: int
  sc_error_depth :: int
  sc_current_cert :: "'c option"
  sc_current_issuer :: "'c option"

definition V_OCSP_CERTSTATUS_GOOD :: int where "V_OCSP_CERTSTATUS_GOOD = 0"
definition V_OCSP_CERTSTATUS_REVOKED :: int where "V_OCSP_CERTSTATUS_REVOKED = 1"
definition V_OCSP_CERTSTATUS_UNKNOWN :: int where "V_OCSP_CERTSTATUS_UNKNOWN = 2"
definition OCSP_RESPONSE_STATUS_SUCCESSFUL :: int where "OCSP_RESPONSE_STATUS_SUCCESSFUL = 0"

abbreviation set_error :: "int \<Rightarrow> 'c store_ctx \<Rightarrow> 'c store_ctx" where
  "set_error e ctx \<equiv> ctx\<lparr>sc_error := e\<rparr>"

section \<open>The request\<close>

text \<open>\<open>add_ocsp_cert\<close>: the id put into the request; the issuer may be NULL.\<close>

definition add_ocsp_cert :: "('c, 'r) ocsp_ssl \<Rightarrow> 'c \<Rightarrow> 'c option \<Rightarrow> byte list option" where
  "add_ocsp_cert ssl cert issuer =
     (case issuer of
        None \<Rightarrow> None
      | Some i \<Rightarrow>
          (case o_cert_to_id ssl cert i of
             None \<Rightarrow> None
           | Some certid \<Rightarrow> if \<not> o_add0_id ssl then None else Some certid))"

text \<open>The request, as the certificate id it asks for; its encoding has a fresh nonce.\<close>

definition get_ocsp_request :: "('c, 'r) ocsp_ssl \<Rightarrow> 'c \<Rightarrow> 'c option \<Rightarrow> byte list option" where
  "get_ocsp_request ssl cert issuer =
     (if \<not> o_request_new ssl then None else add_ocsp_cert ssl cert issuer)"

section \<open>The response\<close>

text \<open>
  The result and the error of the store context. \<open>OCSP_check_nonce\<close> reads the basic
  response, which is NULL when the response carries none; \<open>OCSP_single_get0_status\<close> of NULL
  returns -1 and leaves \<open>thisupd\<close> and \<open>nextupd\<close> unwritten.
\<close>

definition process_ocsp_response ::
  "('c, 'r) ocsp_ssl \<Rightarrow> 'r \<Rightarrow> 'c \<Rightarrow> 'c \<Rightarrow> 'c store_ctx \<Rightarrow> int \<Rightarrow> (int \<times> 'c store_ctx) run" where
  "process_ocsp_response ssl ocsp_resp cert issuer ctx verifyFlags =
     (if o_response_status ssl ocsp_resp \<noteq> OCSP_RESPONSE_STATUS_SUCCESSFUL
      then Inr (OCSP_STATUS_UNKNOWN, ctx)
      else
        (case o_basic ssl ocsp_resp of
           None \<Rightarrow> Inl Null_Deref
         | Some bs \<Rightarrow>
             if br_nonce bs = 0
             then Inr (OCSP_STATUS_UNKNOWN, set_error X509_V_ERR_OCSP_RESP_INVALID ctx)
             else if br_verify bs verifyFlags \<le> 0
             then Inr (OCSP_STATUS_UNKNOWN, set_error X509_V_ERR_OCSP_SIGNATURE_FAILURE ctx)
             else
               (case o_cert_to_id ssl cert issuer of
                  None \<Rightarrow> Inr (OCSP_STATUS_UNKNOWN, set_error X509_V_ERR_OCSP_RESP_INVALID ctx)
                | Some certid \<Rightarrow>
                    (case br_find bs certid of
                       None \<Rightarrow> Inl Uninitialised
                     | Some ss \<Rightarrow>
                         if sr_valid ss \<le> 0
                         then Inr (OCSP_STATUS_UNKNOWN, set_error X509_V_ERR_OCSP_NOT_YET_VALID ctx)
                         else if sr_recent ss \<le> 0
                         then Inr (OCSP_STATUS_UNKNOWN, set_error X509_V_ERR_OCSP_HAS_EXPIRED ctx)
                         else if sr_status ss = V_OCSP_CERTSTATUS_GOOD then Inr (OCSP_STATUS_OK, ctx)
                         else if sr_status ss = V_OCSP_CERTSTATUS_REVOKED then Inr (OCSP_STATUS_REVOKED, ctx)
                         else if sr_status ss = V_OCSP_CERTSTATUS_UNKNOWN then Inr (OCSP_STATUS_UNKNOWN, ctx)
                         else Inr (V_OCSP_CERTSTATUS_UNKNOWN, ctx)))))"

text \<open>The loop over the URLs; the slots of the array may hold NULL.\<close>

fun try_urls ::
  "('c, 'r) ocsp_ssl \<Rightarrow> byte list option list \<Rightarrow> byte list \<Rightarrow> 'c \<Rightarrow> 'c \<Rightarrow> int \<Rightarrow> int
   \<Rightarrow> int \<Rightarrow> 'c store_ctx \<Rightarrow> (int \<times> 'c store_ctx) run" where
  "try_urls ssl [] req cert issuer timeout verifyFlags rv ctx = Inr (rv, ctx)"
| "try_urls ssl (None # urls) req cert issuer timeout verifyFlags rv ctx =
     try_urls ssl urls req cert issuer timeout verifyFlags rv ctx"
| "try_urls ssl (Some url # urls) req cert issuer timeout verifyFlags rv ctx =
     run_bind (get_ocsp_response (o_net ssl) (c_str url) (o_request_der ssl req) timeout) (\<lambda>(resp, _).
     case resp of
       None \<Rightarrow> try_urls ssl urls req cert issuer timeout verifyFlags rv ctx
     | Some r \<Rightarrow>
         run_bind (process_ocsp_response ssl r cert issuer ctx verifyFlags) (\<lambda>(rv, ctx).
         if rv = OCSP_STATUS_OK \<or> rv = OCSP_STATUS_REVOKED then Inr (rv, ctx)
         else try_urls ssl urls req cert issuer timeout verifyFlags rv ctx))"

definition ssl_ocsp_request ::
  "('c, 'r) ocsp_ssl \<Rightarrow> 'c \<Rightarrow> 'c \<Rightarrow> 'c store_ctx \<Rightarrow> int \<Rightarrow> int \<Rightarrow> (int \<times> 'c store_ctx) run" where
  "ssl_ocsp_request ssl cert issuer ctx timeout verifyFlags =
     run_bind
       (case o_aia ssl cert of
          None \<Rightarrow> Inr None
        | Some os \<Rightarrow> run_bind (decode_OCSP_url (n_palloc (o_net ssl)) os) (\<lambda>(urls, _). Inr urls))
       (\<lambda>ocsp_urls.
        case ocsp_urls of
          None \<Rightarrow> Inr (OCSP_STATUS_UNKNOWN, ctx)
        | Some urls \<Rightarrow>
            if length urls > 0 then
              (case get_ocsp_request ssl cert (Some issuer) of
                 None \<Rightarrow> Inr (OCSP_STATUS_UNKNOWN, set_error X509_V_ERR_APPLICATION_VERIFICATION ctx)
               | Some req \<Rightarrow>
                   run_bind (try_urls ssl urls req cert issuer timeout verifyFlags OCSP_STATUS_UNKNOWN ctx)
                     (\<lambda>(rv, ctx).
                      if rv = OCSP_STATUS_UNKNOWN
                      then Inr (rv, set_error X509_V_ERR_UNABLE_TO_GET_CRL ctx)
                      else Inr (rv, ctx)))
            else Inr (OCSP_STATUS_UNKNOWN, ctx))"

definition ssl_verify_OCSP ::
  "('c, 'r) ocsp_ssl \<Rightarrow> 'c store_ctx \<Rightarrow> int \<Rightarrow> int \<Rightarrow> (int \<times> 'c store_ctx) run" where
  "ssl_verify_OCSP ssl ctx timeout verifyFlags =
     (case sc_current_cert ctx of
        None \<Rightarrow> Inr (OCSP_STATUS_UNKNOWN, ctx)
      | Some cert \<Rightarrow>
          if o_self_issued ssl cert then Inr (OCSP_STATUS_UNKNOWN, set_error X509_V_OK ctx)
          else
            (case sc_current_issuer ctx of
               None \<Rightarrow> Inr (OCSP_STATUS_UNKNOWN, ctx)
             | Some issuer \<Rightarrow>
                 run_bind (ssl_ocsp_request ssl cert issuer ctx timeout verifyFlags) (\<lambda>(r, ctx).
                 if r = OCSP_STATUS_OK then Inr (r, set_error X509_V_OK ctx)
                 else if r = OCSP_STATUS_REVOKED then Inr (r, set_error X509_V_ERR_CERT_REVOKED ctx)
                 else Inr (r, ctx))))"

section \<open>The verification callback\<close>

text \<open>
  The effects besides the store context: the verify result of the \<open>SSL\<close>, and the peer
  certificate that the connection releases.
\<close>

datatype verify_event = Set_Verify_Result int | Free_Peer ptr

record 'c verify_result =
  vr_ok :: bool
  vr_store :: "'c store_ctx"
  vr_con :: tcn_ssl_conn_t
  vr_events :: "verify_event list"

definition SSL_callback_SSL_verify ::
  "('c, 'r) ocsp_ssl \<Rightarrow> tcn_ssl_ctxt_t \<Rightarrow> tcn_ssl_conn_t \<Rightarrow> bool \<Rightarrow> 'c store_ctx
   \<Rightarrow> 'c verify_result run" where
  "SSL_callback_SSL_verify ssl c con ok ctx =
     (let errnum = sc_error ctx;
          errdepth = sc_error_depth ctx;
          con = con\<lparr>con_pha_state := PHA_COMPLETE\<rparr>
      in
      if c_verify_mode c = SSL_CVERIFY_UNSET \<or> c_verify_mode c = SSL_CVERIFY_NONE
      then Inr \<lparr>vr_ok = True, vr_store = ctx, vr_con = con, vr_events = []\<rparr>
      else if (SSL_VERIFY_ERROR_IS_OPTIONAL errnum \<or> errnum = X509_V_OK)
              \<and> c_verify_mode c = SSL_CVERIFY_OPTIONAL_NO_CA
      then Inr \<lparr>vr_ok = True, vr_store = ctx, vr_con = con, vr_events = [Set_Verify_Result X509_V_OK]\<rparr>
      else
        (let ctx = (if \<not> ok \<and> errnum = X509_V_ERR_CRL_HAS_EXPIRED then set_error (-1) ctx else ctx) in
         run_bind
           (if c_no_ocsp_check c = 0 \<and> ok then
              (if SSL_VERIFY_ERROR_IS_OPTIONAL errnum
               then Inr (False, set_error X509_V_ERR_APPLICATION_VERIFICATION ctx)
               else
                 run_bind (ssl_verify_OCSP ssl ctx (c_ocsp_timeout c) (c_ocsp_verify_flags c))
                   (\<lambda>(ocsp_response, ctx).
                    if ocsp_response = OCSP_STATUS_REVOKED then Inr (False, ctx)
                    else if ocsp_response = OCSP_STATUS_UNKNOWN then
                      Inr (if sc_error ctx \<noteq> 0
                              \<and> \<not> (c_ocsp_soft_fail c \<noteq> 0 \<and> sc_error ctx = X509_V_ERR_UNABLE_TO_GET_CRL)
                           then False else ok, ctx)
                    else Inr (ok, ctx)))
            else Inr (ok, ctx))
           (\<lambda>(ok, ctx).
            (let (con, evs) =
                   (if \<not> ok then
                      (case con_peer con of
                         None \<Rightarrow> (con, [])
                       | Some peer \<Rightarrow> (con\<lparr>con_peer := None\<rparr>, [Free_Peer peer]))
                    else (con, []));
                 ok = (if errdepth > c_verify_depth c then False else ok)
             in Inr \<lparr>vr_ok = ok, vr_store = ctx, vr_con = con, vr_events = evs\<rparr>))))"

section \<open>The verdict of the responders\<close>

text \<open>
  The specification: a responder is silent, gives no usable answer or vouches for or against
  the certificate; a usable answer is current, answers the request's nonce and has a valid
  signature. The verdict is the first usable answer.
\<close>

datatype verdict = Good | Revoked

definition usable :: "('c, 'r) ocsp_ssl \<Rightarrow> 'r \<Rightarrow> 'c \<Rightarrow> 'c \<Rightarrow> int \<Rightarrow> verdict option" where
  "usable ssl r cert issuer flags =
     (case (o_basic ssl r, o_cert_to_id ssl cert issuer) of
        (Some bs, Some certid) \<Rightarrow>
          (case br_find bs certid of
             Some ss \<Rightarrow>
               if o_response_status ssl r = OCSP_RESPONSE_STATUS_SUCCESSFUL \<and> br_nonce bs \<noteq> 0
                  \<and> 0 < br_verify bs flags \<and> 0 < sr_valid ss \<and> 0 < sr_recent ss
               then (if sr_status ss = V_OCSP_CERTSTATUS_GOOD then Some Good
                     else if sr_status ss = V_OCSP_CERTSTATUS_REVOKED then Some Revoked else None)
               else None
           | None \<Rightarrow> None)
      | _ \<Rightarrow> None)"

definition status_of :: "verdict option \<Rightarrow> int" where
  "status_of v = (case v of None \<Rightarrow> OCSP_STATUS_UNKNOWN | Some Good \<Rightarrow> OCSP_STATUS_OK
     | Some Revoked \<Rightarrow> OCSP_STATUS_REVOKED)"

lemmas status_constants =
  OCSP_STATUS_OK_def OCSP_STATUS_REVOKED_def OCSP_STATUS_UNKNOWN_def V_OCSP_CERTSTATUS_GOOD_def
  V_OCSP_CERTSTATUS_REVOKED_def V_OCSP_CERTSTATUS_UNKNOWN_def

lemma status_distinct:
  "OCSP_STATUS_OK \<noteq> OCSP_STATUS_REVOKED" "OCSP_STATUS_OK \<noteq> OCSP_STATUS_UNKNOWN"
  "OCSP_STATUS_REVOKED \<noteq> OCSP_STATUS_OK" "OCSP_STATUS_REVOKED \<noteq> OCSP_STATUS_UNKNOWN"
  "OCSP_STATUS_UNKNOWN \<noteq> OCSP_STATUS_OK" "OCSP_STATUS_UNKNOWN \<noteq> OCSP_STATUS_REVOKED"
  by (simp_all add: status_constants)

lemma status_of_simps [simp]:
  "status_of None = OCSP_STATUS_UNKNOWN" "status_of (Some Good) = OCSP_STATUS_OK"
  "status_of (Some Revoked) = OCSP_STATUS_REVOKED"
  by (simp_all add: status_of_def)

lemma status_of_iff [simp]:
  "status_of v = OCSP_STATUS_UNKNOWN \<longleftrightarrow> v = None"
  "status_of v = OCSP_STATUS_OK \<longleftrightarrow> v = Some Good"
  "status_of v = OCSP_STATUS_REVOKED \<longleftrightarrow> v = Some Revoked"
  by (auto simp: status_of_def status_constants split: option.splits verdict.splits)

text \<open>When the code does not fault, one response yields the verdict it supports.\<close>

lemma process_ocsp_response_verdict:
  assumes "process_ocsp_response ssl r cert issuer ctx flags = Inr (rv, ctx')"
  shows "rv = status_of (usable ssl r cert issuer flags)"
    and "rv \<noteq> OCSP_STATUS_UNKNOWN \<Longrightarrow> ctx' = ctx"
    and "\<exists>e. ctx' = set_error e ctx"
  using assms
  by (auto simp: process_ocsp_response_def usable_def status_constants split: option.splits if_split_asm)
    (metis store_ctx.surjective store_ctx.update_convs(1))+

text \<open>The answer of the responder at a URL.\<close>

definition answer :: "('c, 'r) ocsp_ssl \<Rightarrow> byte list \<Rightarrow> byte list \<Rightarrow> 'c \<Rightarrow> 'c \<Rightarrow> int \<Rightarrow> int \<Rightarrow> verdict option" where
  "answer ssl url req cert issuer timeout flags =
     (case get_ocsp_response (o_net ssl) (c_str url) (o_request_der ssl req) timeout of
        Inr (Some r, _) \<Rightarrow> usable ssl r cert issuer flags
      | _ \<Rightarrow> None)"

definition urls_verdict ::
  "('c, 'r) ocsp_ssl \<Rightarrow> byte list option list \<Rightarrow> byte list \<Rightarrow> 'c \<Rightarrow> 'c \<Rightarrow> int \<Rightarrow> int \<Rightarrow> verdict option" where
  "urls_verdict ssl urls req cert issuer timeout flags =
     first_some (map (\<lambda>u. case u of None \<Rightarrow> None | Some url \<Rightarrow> answer ssl url req cert issuer timeout flags) urls)"

lemma try_urls_verdict:
  "try_urls ssl urls req cert issuer timeout flags OCSP_STATUS_UNKNOWN ctx = Inr (rv, ctx') \<Longrightarrow>
   rv = status_of (urls_verdict ssl urls req cert issuer timeout flags) \<and> (\<exists>e. ctx' = set_error e ctx)"
proof (induction urls arbitrary: ctx)
  case Nil
  then show ?case
    by (auto simp: urls_verdict_def) (metis store_ctx.surjective store_ctx.update_convs(1))
next
  case (Cons u urls)
  show ?case
  proof (cases u)
    case None
    then show ?thesis using Cons by (simp add: urls_verdict_def)
  next
    case (Some url)
    from Cons.prems obtain resp evs where g:
      "get_ocsp_response (o_net ssl) (c_str url) (o_request_der ssl req) timeout = Inr (resp, evs)"
      by (auto simp: Some elim!: run_bind_InrE)
    show ?thesis
    proof (cases resp)
      case None
      then show ?thesis
        using Cons g by (simp add: Some urls_verdict_def answer_def)
    next
      case (Some r)
      then obtain rv1 ctx1 where p: "process_ocsp_response ssl r cert issuer ctx flags = Inr (rv1, ctx1)"
        using Cons.prems g by (auto simp: \<open>u = Some url\<close> elim!: run_bind_InrE)
      note v = process_ocsp_response_verdict [OF p]
      have a: "answer ssl url req cert issuer timeout flags = usable ssl r cert issuer flags"
        using g Some by (simp add: answer_def)
      show ?thesis
      proof (cases "usable ssl r cert issuer flags")
        case None
        then have "try_urls ssl urls req cert issuer timeout flags OCSP_STATUS_UNKNOWN ctx1 = Inr (rv, ctx')"
          using Cons.prems g p v(1) by (simp add: \<open>u = Some url\<close> \<open>resp = Some r\<close> status_constants)
        from Cons.IH [OF this] v(3) None a show ?thesis
          by (auto simp: \<open>u = Some url\<close> urls_verdict_def)
      next
        case (Some w)
        then show ?thesis
          using Cons.prems g p v a
          by (cases w) (auto simp: \<open>u = Some url\<close> \<open>resp = Some r\<close> urls_verdict_def)
      qed
    qed
  qed
qed

text \<open>
  How far the check of the current certificate gets: there is nothing to ask (no certificate
  or issuer, a self-issued certificate, no OCSP URL found in it), no request can be built, or
  the responders are asked.
\<close>

datatype consultation = Not_Applicable | No_Request | Verdict "verdict option"

definition consult :: "('c, 'r) ocsp_ssl \<Rightarrow> 'c \<Rightarrow> 'c \<Rightarrow> int \<Rightarrow> int \<Rightarrow> consultation" where
  "consult ssl cert issuer timeout flags =
     (case o_aia ssl cert of
        None \<Rightarrow> Not_Applicable
      | Some os \<Rightarrow>
          (case decode_OCSP_url (n_palloc (o_net ssl)) os of
             Inr (Some urls, _) \<Rightarrow>
               (case get_ocsp_request ssl cert (Some issuer) of
                  None \<Rightarrow> No_Request
                | Some req \<Rightarrow> Verdict (urls_verdict ssl urls req cert issuer timeout flags))
           | _ \<Rightarrow> Not_Applicable))"

definition consultation ::
  "('c, 'r) ocsp_ssl \<Rightarrow> 'c store_ctx \<Rightarrow> int \<Rightarrow> int \<Rightarrow> consultation" where
  "consultation ssl ctx timeout flags =
     (case (sc_current_cert ctx, sc_current_issuer ctx) of
        (Some cert, Some issuer) \<Rightarrow>
          if o_self_issued ssl cert then Not_Applicable else consult ssl cert issuer timeout flags
      | _ \<Rightarrow> Not_Applicable)"

lemma decode_OCSP_url_nonempty:
  "decode_OCSP_url ok os = Inr (Some urls, u) \<Longrightarrow> urls \<noteq> []"
  by (auto simp: decode_OCSP_url_def elim!: run_bind_InrE split: if_split_asm)

lemma set_error_same: "\<exists>e. (ctx :: 'c store_ctx) = set_error e ctx"
  by (metis store_ctx.surjective store_ctx.update_convs(1))

text \<open>\<open>ssl_ocsp_request\<close> against the specification.\<close>

lemma ssl_ocsp_request_consult:
  assumes "ssl_ocsp_request ssl cert issuer ctx timeout flags = Inr (rv, ctx')"
  shows "case consult ssl cert issuer timeout flags of
      Not_Applicable \<Rightarrow> rv = OCSP_STATUS_UNKNOWN \<and> ctx' = ctx
    | No_Request \<Rightarrow> rv = OCSP_STATUS_UNKNOWN \<and> ctx' = set_error X509_V_ERR_APPLICATION_VERIFICATION ctx
    | Verdict v \<Rightarrow> rv = status_of v \<and> (\<exists>e. ctx' = set_error e ctx)
        \<and> (v = None \<longrightarrow> ctx' = set_error X509_V_ERR_UNABLE_TO_GET_CRL ctx)"
proof (cases "o_aia ssl cert")
  case None
  then show ?thesis using assms by (simp add: ssl_ocsp_request_def consult_def)
next
  case (Some os)
  from assms obtain urls u where d: "decode_OCSP_url (n_palloc (o_net ssl)) os = Inr (urls, u)"
    by (auto simp: ssl_ocsp_request_def Some elim!: run_bind_InrE)
  note step = assms [unfolded ssl_ocsp_request_def Some option.case d run_bind.simps prod.case]
  show ?thesis
  proof (cases urls)
    case None
    then show ?thesis using step by (simp add: consult_def \<open>o_aia ssl cert = Some os\<close> d)
  next
    case (Some us)
    then have ne: "us \<noteq> []" using d decode_OCSP_url_nonempty by blast
    show ?thesis
    proof (cases "get_ocsp_request ssl cert (Some issuer)")
      case None
      then show ?thesis using step ne Some by (simp add: consult_def \<open>o_aia ssl cert = Some os\<close> d)
    next
      case req: (Some req)
      obtain rv1 ctx1 where t: "try_urls ssl us req cert issuer timeout flags OCSP_STATUS_UNKNOWN ctx = Inr (rv1, ctx1)"
        using step ne Some req by (auto elim!: run_bind_InrE)
      have c: "consult ssl cert issuer timeout flags = Verdict (urls_verdict ssl us req cert issuer timeout flags)"
        using Some req by (simp add: consult_def \<open>o_aia ssl cert = Some os\<close> d)
      from try_urls_verdict [OF t] step ne Some req t show ?thesis
        by (auto simp: c split: if_split_asm)
    qed
  qed
qed

text \<open>What a consultation allows, with or without soft-fail.\<close>

definition admits :: "bool \<Rightarrow> consultation \<Rightarrow> bool" where
  "admits soft k \<longleftrightarrow>
     (case k of Not_Applicable \<Rightarrow> True | No_Request \<Rightarrow> False | Verdict None \<Rightarrow> soft
      | Verdict (Some Good) \<Rightarrow> True | Verdict (Some Revoked) \<Rightarrow> False)"

lemma ssl_verify_OCSP_consultation:
  assumes "ssl_verify_OCSP ssl ctx timeout flags = Inr (r, ctx')" and "sc_error ctx = X509_V_OK"
  shows "case consultation ssl ctx timeout flags of
      Not_Applicable \<Rightarrow> r = OCSP_STATUS_UNKNOWN \<and> sc_error ctx' = X509_V_OK
    | No_Request \<Rightarrow> r = OCSP_STATUS_UNKNOWN \<and> sc_error ctx' = X509_V_ERR_APPLICATION_VERIFICATION
    | Verdict None \<Rightarrow> r = OCSP_STATUS_UNKNOWN \<and> sc_error ctx' = X509_V_ERR_UNABLE_TO_GET_CRL
    | Verdict (Some Good) \<Rightarrow> r = OCSP_STATUS_OK \<and> sc_error ctx' = X509_V_OK
    | Verdict (Some Revoked) \<Rightarrow> r = OCSP_STATUS_REVOKED \<and> sc_error ctx' = X509_V_ERR_CERT_REVOKED"
proof (cases "\<exists>cert issuer. sc_current_cert ctx = Some cert \<and> sc_current_issuer ctx = Some issuer
    \<and> \<not> o_self_issued ssl cert")
  case False
  then show ?thesis
    using assms by (auto simp: ssl_verify_OCSP_def consultation_def split: option.splits if_split_asm)
next
  case True
  then obtain cert issuer where c: "sc_current_cert ctx = Some cert" "sc_current_issuer ctx = Some issuer"
    "\<not> o_self_issued ssl cert"
    by blast
  then obtain rv ctx1 where q: "ssl_ocsp_request ssl cert issuer ctx timeout flags = Inr (rv, ctx1)"
    and r: "Inr (r, ctx') = (if rv = OCSP_STATUS_OK then Inr (rv, set_error X509_V_OK ctx1)
       else if rv = OCSP_STATUS_REVOKED then Inr (rv, set_error X509_V_ERR_CERT_REVOKED ctx1)
       else (Inr (rv, ctx1) :: (int \<times> 'a store_ctx) run))"
    using assms(1) by (auto simp: ssl_verify_OCSP_def elim!: run_bind_InrE)
  from ssl_ocsp_request_consult [OF q] r assms(2) c show ?thesis
    by (cases "consult ssl cert issuer timeout flags")
      (auto simp: consultation_def status_distinct split: option.splits verdict.splits)
qed

section \<open>The callback\<close>

definition checked_mode :: "tcn_ssl_ctxt_t \<Rightarrow> bool" where
  "checked_mode c \<longleftrightarrow> c_verify_mode c = SSL_CVERIFY_OPTIONAL \<or> c_verify_mode c = SSL_CVERIFY_REQUIRE"

lemma SSL_callback_SSL_verify_checked:
  assumes "checked_mode c" and "SSL_callback_SSL_verify ssl c con ok ctx = Inr res"
    and "sc_error ctx = X509_V_OK"
  shows "vr_ok res \<longleftrightarrow> ok \<and> sc_error_depth ctx \<le> c_verify_depth c \<and>
      (c_no_ocsp_check c \<noteq> 0 \<or>
       admits (c_ocsp_soft_fail c \<noteq> 0) (consultation ssl ctx (c_ocsp_timeout c) (c_ocsp_verify_flags c)))"
    and "c_no_ocsp_check c = 0 \<Longrightarrow> ok \<Longrightarrow>
      consultation ssl ctx (c_ocsp_timeout c) (c_ocsp_verify_flags c) = Verdict (Some Revoked) \<Longrightarrow>
      sc_error (vr_store res) = X509_V_ERR_CERT_REVOKED"
proof -
  have mode: "\<not> (c_verify_mode c = SSL_CVERIFY_UNSET \<or> c_verify_mode c = SSL_CVERIFY_NONE)"
    "c_verify_mode c \<noteq> SSL_CVERIFY_OPTIONAL_NO_CA"
    using assms(1) by (auto simp: checked_mode_def ssl_constants)
  have err: "\<not> SSL_VERIFY_ERROR_IS_OPTIONAL (sc_error ctx)" "sc_error ctx \<noteq> X509_V_ERR_CRL_HAS_EXPIRED"
    using assms(3) by (simp_all add: SSL_VERIFY_ERROR_IS_OPTIONAL_def ssl_constants)
  note run = assms(2) [unfolded SSL_callback_SSL_verify_def Let_def]
  have "(vr_ok res \<longleftrightarrow> ok \<and> sc_error_depth ctx \<le> c_verify_depth c \<and>
      (c_no_ocsp_check c \<noteq> 0 \<or>
       admits (c_ocsp_soft_fail c \<noteq> 0) (consultation ssl ctx (c_ocsp_timeout c) (c_ocsp_verify_flags c))))
    \<and> (c_no_ocsp_check c = 0 \<and> ok \<and>
      consultation ssl ctx (c_ocsp_timeout c) (c_ocsp_verify_flags c) = Verdict (Some Revoked) \<longrightarrow>
      sc_error (vr_store res) = X509_V_ERR_CERT_REVOKED)"
  proof (cases "c_no_ocsp_check c = 0 \<and> ok")
    case False
    then show ?thesis
      using run mode err by (auto split: if_split_asm option.splits)
  next
    case True
    then obtain r ctx' where v: "ssl_verify_OCSP ssl ctx (c_ocsp_timeout c) (c_ocsp_verify_flags c) = Inr (r, ctx')"
      using run mode err by (auto elim!: run_bind_InrE split: if_split_asm)
    from ssl_verify_OCSP_consultation [OF v assms(3)] run mode err True v show ?thesis
      by (cases "consultation ssl ctx (c_ocsp_timeout c) (c_ocsp_verify_flags c)")
        (auto simp: admits_def status_distinct ssl_constants
          split: option.splits verdict.splits if_split_asm)
  qed
  then show "vr_ok res \<longleftrightarrow> ok \<and> sc_error_depth ctx \<le> c_verify_depth c \<and>
      (c_no_ocsp_check c \<noteq> 0 \<or>
       admits (c_ocsp_soft_fail c \<noteq> 0) (consultation ssl ctx (c_ocsp_timeout c) (c_ocsp_verify_flags c)))"
    and "c_no_ocsp_check c = 0 \<Longrightarrow> ok \<Longrightarrow>
      consultation ssl ctx (c_ocsp_timeout c) (c_ocsp_verify_flags c) = Verdict (Some Revoked) \<Longrightarrow>
      sc_error (vr_store res) = X509_V_ERR_CERT_REVOKED"
    by blast+
qed

text \<open>A usable answer has a valid signature.\<close>

lemma usable_signed:
  "usable ssl r cert issuer flags = Some v \<Longrightarrow> \<exists>bs. o_basic ssl r = Some bs \<and> 0 < br_verify bs flags"
  by (auto simp: usable_def split: option.splits if_split_asm)

lemma urls_verdict_signed:
  "urls_verdict ssl urls req cert issuer timeout flags = Some v \<Longrightarrow>
   \<exists>r bs. o_basic ssl r = Some bs \<and> 0 < br_verify bs flags"
proof (induction urls)
  case (Cons u urls)
  have "\<exists>r bs. o_basic ssl r = Some bs \<and> 0 < br_verify bs flags"
    if "answer ssl url req cert issuer timeout flags = Some w" for url w
    using that usable_signed [of ssl _ cert issuer flags w]
    by (fastforce simp: answer_def split: sum.splits option.splits prod.splits)
  then show ?case
    using Cons
    by (cases u; cases "answer ssl (the u) req cert issuer timeout flags") (auto simp: urls_verdict_def)
qed (simp add: urls_verdict_def)

text \<open>The callback runs once per certificate of a chain, on the same connection.\<close>

fun verify_calls ::
  "('c, 'r) ocsp_ssl \<Rightarrow> tcn_ssl_ctxt_t \<Rightarrow> tcn_ssl_conn_t \<Rightarrow> (bool \<times> 'c store_ctx) list
   \<Rightarrow> (tcn_ssl_conn_t \<times> verify_event list) run" where
  "verify_calls ssl c con [] = Inr (con, [])"
| "verify_calls ssl c con ((ok, ctx) # calls) =
     run_bind (SSL_callback_SSL_verify ssl c con ok ctx) (\<lambda>res.
     run_bind (verify_calls ssl c (vr_con res) calls) (\<lambda>(con', evs). Inr (con', vr_events res @ evs)))"

definition freed_peers :: "verify_event list \<Rightarrow> ptr list" where
  "freed_peers evs = concat (map (\<lambda>e. case e of Free_Peer p \<Rightarrow> [p] | _ \<Rightarrow> []) evs)"

lemma freed_peers_simps [simp]:
  "freed_peers [] = []" "freed_peers (Free_Peer p # evs) = p # freed_peers evs"
  "freed_peers (Set_Verify_Result r # evs) = freed_peers evs"
  "freed_peers (evs @ evs') = freed_peers evs @ freed_peers evs'"
  by (simp_all add: freed_peers_def)

lemma SSL_callback_SSL_verify_peer:
  assumes "SSL_callback_SSL_verify ssl c con ok ctx = Inr res"
  shows "con_peer con = None \<Longrightarrow> con_peer (vr_con res) = None \<and> freed_peers (vr_events res) = []"
    and "con_peer con = Some p \<Longrightarrow>
      con_peer (vr_con res) = Some p \<and> freed_peers (vr_events res) = [] \<or>
      con_peer (vr_con res) = None \<and> freed_peers (vr_events res) = [p]"
  using assms
  by (auto simp: SSL_callback_SSL_verify_def Let_def elim!: run_bind_InrE split: if_split_asm)

lemma verify_calls_peer:
  "verify_calls ssl c con calls = Inr (con', evs) \<Longrightarrow>
   (case con_peer con of
      None \<Rightarrow> con_peer con' = None \<and> freed_peers evs = []
    | Some p \<Rightarrow> con_peer con' = Some p \<and> freed_peers evs = [] \<or> con_peer con' = None \<and> freed_peers evs = [p])"
proof (induction calls arbitrary: con evs)
  case (Cons call calls)
  obtain ok ctx where c: "call = (ok, ctx)" by fastforce
  with Cons.prems obtain res evs' where r: "SSL_callback_SSL_verify ssl c con ok ctx = Inr res"
    and v: "verify_calls ssl c (vr_con res) calls = Inr (con', evs')" and e: "evs = vr_events res @ evs'"
    by (auto elim!: run_bind_InrE)
  from SSL_callback_SSL_verify_peer [OF r] Cons.IH [OF v] e show ?case
    by (auto split: option.splits)
qed (auto split: option.splits)

section \<open>A concrete responder\<close>

text \<open>A responder that answers with one byte, the status of the certificate; the signatures of
  the one that answers 9 do not verify.\<close>

definition sample_net :: "byte \<Rightarrow> byte ocsp_net" where
  "sample_net b =
     \<lparr>n_palloc = \<lambda>_. True, n_bio_new = True, n_eof_clears = True,
      n_d2i = \<lambda>bs. if bs = [] then None else Some (hd bs),
      n_parse_url = \<lambda>_. Some (ascii ''h'', ascii ''80'', ascii ''/''),
      n_resolve = \<lambda>_ _. True, n_socket = True, n_connect = \<lambda>_ _. True,
      n_send = \<lambda>_ _ _. replicate 200 (True, 1),
      n_recv = \<lambda>_ _ _. [Received (ascii ''HTTP/1.0 200 OK'' @ crlf), Received (crlf @ [b]), Recv_Eof 0]\<rparr>"

definition sample_ssl :: "byte \<Rightarrow> (nat, byte) ocsp_ssl" where
  "sample_ssl b =
     \<lparr>o_net = sample_net b, o_self_issued = \<lambda>_. False,
      o_aia = \<lambda>_. Some (aia_der [\<lparr>ad_method = OCSP_OID, ad_tag = ASN1_STRING, ad_location = ascii ''u''\<rparr>]),
      o_request_new = True, o_cert_to_id = \<lambda>_ _. Some [7], o_add0_id = True,
      o_request_der = Some, o_response_status = \<lambda>_. 0,
      o_basic = \<lambda>r. Some \<lparr>br_nonce = 1, br_verify = \<lambda>_. if b = 9 then 0 else 1,
        br_find = \<lambda>_. Some \<lparr>sr_status = uint r, sr_valid = 1, sr_recent = 1\<rparr>\<rparr>\<rparr>"

lemma sample_recv:
  "ocsp_get_resp (\<lambda>_. True) (parse_ocsp_resp True True d2i)
     [Received (ascii ''HTTP/1.0 200 OK'' @ crlf), Received (crlf @ [b]), Recv_Eof 0] = Inr (d2i [b])"
proof -
  let ?h = "\<lparr>hr_proto = ascii ''HTTP/1.0'', hr_code = ascii ''200'', hr_reason = ascii ''OK'',
    hr_headers = [], hr_body = [b]\<rparr>"
  let ?as = "[Received (ascii ''HTTP/1.0 200 OK'' @ crlf), Received (crlf @ [b]), Recv_Eof 0]"
  have 1: "received ?as = Some (http_bytes ?h)"
    by (simp add: http_bytes_def status_line_def ascii_def)
  have 2: "ocsp_get_resp (\<lambda>_. True) (parse_ocsp_resp True True d2i) ?as
      = parse_ocsp_resp True True d2i (http_bytes ?h)"
    by (rule ocsp_get_resp_received [OF _ 1])
      (simp_all add: recv_ok_def BUFFER_SIZE_def OCSP_MAX_RESPONSE_SIZE_def http_bytes_def status_line_def
        ascii_def crlf_def)
  have 3: "http_ok ?h" "digits_value (hr_code ?h) = 200"
    by (simp_all add: http_ok_def status_line_def ascii_def crlf_def in_word_def isspace_def isdigit_def
        digits_value_def)
  show ?thesis
    using parse_ocsp_resp_http_bytes [OF 3(1), of True d2i] 3(2) int_of_ulong_eq_200 [of 200]
    by (simp add: 2)
qed

lemma sample_response:
  "\<exists>evs. get_ocsp_response (sample_net b) url (Some [7]) timeout = Inr (Some b, evs)"
proof -
  have port: "sscanf_d (ascii ''80'') = Some 80"
    by (simp add: sscanf_d_def ascii_def isspace_def isdigit_def sign_len_def digits_value_def Let_def)
  have dec: "dec_int 80 = [56, 48]" "dec_int 1 = [49]"
    by (simp_all add: dec_int_def dec_nat.simps)
  obtain req where req: "serialize_request (Some [7]) (ascii ''h'') 80 (ascii ''/'') = Some req"
    by (simp add: serialize_request_def)
  then have len: "length req \<le> 200"
    by (auto simp: serialize_request_def ascii_def crlf_def dec)
  have "ocsp_send_req (replicate 200 (True, 1)) req = (True, req)"
    using send_loop_progress [of "replicate 200 (True, 1)" req "[]"] len by (simp add: ocsp_send_req_def)
  then show ?thesis
    by (simp add: get_ocsp_response_def sample_net_def port req make_socket_def sample_recv)
qed

lemma sample_aia:
  "decode_OCSP_url (\<lambda>_. True) (aia_der [\<lparr>ad_method = OCSP_OID, ad_tag = ASN1_STRING, ad_location = ascii ''u''\<rparr>])
    = Inr (Some [Some (ascii ''u'')], \<lparr>ua_slots = [Some (ascii ''u'')], ua_stray = [(1, 1)]\<rparr>)"
  by code_simp

lemma sample_process:
  "process_ocsp_response (sample_ssl b) r cert issuer ctx flags =
     Inr (if b = 9 then (OCSP_STATUS_UNKNOWN, set_error X509_V_ERR_OCSP_SIGNATURE_FAILURE ctx)
          else if uint r = V_OCSP_CERTSTATUS_GOOD then (OCSP_STATUS_OK, ctx)
          else if uint r = V_OCSP_CERTSTATUS_REVOKED then (OCSP_STATUS_REVOKED, ctx)
          else (OCSP_STATUS_UNKNOWN, ctx))"
  by (simp add: process_ocsp_response_def sample_ssl_def OCSP_RESPONSE_STATUS_SUCCESSFUL_def status_constants)

lemma sample_request:
  "ssl_ocsp_request (sample_ssl b) cert issuer ctx timeout flags =
     Inr (if b = 9 \<or> uint b \<noteq> 0 \<and> uint b \<noteq> 1
          then (OCSP_STATUS_UNKNOWN, set_error X509_V_ERR_UNABLE_TO_GET_CRL ctx)
          else (uint b, ctx))"
proof -
  obtain evs where g: "get_ocsp_response (sample_net b) (c_str (ascii ''u'')) (Some [7]) timeout = Inr (Some b, evs)"
    using sample_response by blast
  have f: "o_net (sample_ssl b) = sample_net b" "o_request_der (sample_ssl b) = Some"
    "n_palloc (sample_net b) = (\<lambda>_. True)"
    "o_aia (sample_ssl b) cert = Some (aia_der [\<lparr>ad_method = OCSP_OID, ad_tag = ASN1_STRING, ad_location = ascii ''u''\<rparr>])"
    "get_ocsp_request (sample_ssl b) cert (Some issuer) = Some [7]"
    by (simp_all add: sample_ssl_def sample_net_def get_ocsp_request_def add_ocsp_cert_def)
  show ?thesis
    by (auto simp: ssl_ocsp_request_def f sample_aia g sample_process status_constants)
qed

lemma sample_consult:
  "consult (sample_ssl b) cert issuer timeout flags =
     Verdict (if b = 9 then None else if uint b = 0 then Some Good else if uint b = 1 then Some Revoked else None)"
proof -
  obtain evs where g: "get_ocsp_response (sample_net b) (c_str (ascii ''u'')) (Some [7]) timeout = Inr (Some b, evs)"
    using sample_response by blast
  have f: "o_net (sample_ssl b) = sample_net b" "o_request_der (sample_ssl b) = Some"
    "n_palloc (sample_net b) = (\<lambda>_. True)"
    "o_aia (sample_ssl b) cert = Some (aia_der [\<lparr>ad_method = OCSP_OID, ad_tag = ASN1_STRING, ad_location = ascii ''u''\<rparr>])"
    "get_ocsp_request (sample_ssl b) cert (Some issuer) = Some [7]"
    by (simp_all add: sample_ssl_def sample_net_def get_ocsp_request_def add_ocsp_cert_def)
  have "usable (sample_ssl b) b cert issuer flags
      = (if b = 9 then None else if uint b = 0 then Some Good else if uint b = 1 then Some Revoked else None)"
    by (simp add: usable_def sample_ssl_def OCSP_RESPONSE_STATUS_SUCCESSFUL_def status_constants)
  then show ?thesis
    by (simp add: consult_def f sample_aia urls_verdict_def answer_def g)
qed

text \<open>A context that requires certificates and checks OCSP, and a connection with a peer.\<close>

definition sample_ctxt :: "int \<Rightarrow> tcn_ssl_ctxt_t" where
  "sample_ctxt soft =
     \<lparr>c_ctx = Some 1, c_bio_os = None, c_bio_is = None, c_context_id = [], c_protocol = 0, c_mode = 1,
      c_crl = None, c_store = None, c_certs = [], c_keys = [], c_ca_certs = 0, c_shutdown_type = 0,
      c_rand_file = None, c_verify_depth = 1, c_verify_mode = SSL_CVERIFY_REQUIRE, c_cb_data = False,
      c_alpn = None, c_alpnlen = 0, c_verifier = None, c_verifier_method = None,
      c_next_proto_data = None, c_next_proto_len = 0, c_alpn_proto_data = None, c_alpn_proto_len = 0,
      c_alpn_selector_failure_behavior = 0, c_no_ocsp_check = 0, c_ocsp_soft_fail = soft,
      c_ocsp_timeout = OCSP_TIMEOUT_DEFAULT, c_ocsp_verify_flags = 0\<rparr>"

definition sample_con :: tcn_ssl_conn_t where
  "sample_con = \<lparr>con_ssl = Some 2, con_peer = Some 3, con_shutdown_type = 0,
     con_reneg_state = RENEG_INIT, con_pha_state = PHA_NONE\<rparr>"

definition sample_store :: "nat store_ctx" where
  "sample_store = \<lparr>sc_error = X509_V_OK, sc_error_depth = 0, sc_current_cert = Some 10, sc_current_issuer = Some 11\<rparr>"

lemma sample_callback:
  "SSL_callback_SSL_verify (sample_ssl b) (sample_ctxt soft) con True sample_store =
    (let ctx = set_error (if b = 9 then X509_V_ERR_UNABLE_TO_GET_CRL else if uint b = 0 then X509_V_OK
               else if uint b = 1 then X509_V_ERR_CERT_REVOKED else X509_V_ERR_UNABLE_TO_GET_CRL) sample_store;
         ok = (if b = 9 then soft \<noteq> 0 else if uint b = 0 then True else if uint b = 1 then False else soft \<noteq> 0)
     in Inr \<lparr>vr_ok = ok, vr_store = ctx,
             vr_con = con\<lparr>con_pha_state := PHA_COMPLETE, con_peer := if ok then con_peer con else None\<rparr>,
             vr_events = (if ok then [] else (case con_peer con of None \<Rightarrow> [] | Some p \<Rightarrow> [Free_Peer p]))\<rparr>)"
  by (simp add: SSL_callback_SSL_verify_def ssl_verify_OCSP_def sample_request sample_store_def
      sample_ctxt_def ssl_constants SSL_VERIFY_ERROR_IS_OPTIONAL_def Let_def split: option.split)
    (auto simp: sample_ssl_def)

section \<open>Properties\<close>

text \<open>
  C2: the result of \<open>ssl_ocsp_request\<close> is the first usable answer among the responders,
  in the order of the URLs (current, with a valid signature and no wrong nonce), and UNKNOWN
  when there is none or nobody could be asked. When responders were asked without a usable
  answer the error is always \<open>X509_V_ERR_UNABLE_TO_GET_CRL\<close>: it replaces the more
  specific errors that \<open>process_ocsp_response\<close> has set.
\<close>

theorem ssl_ocsp_request_refines:
  assumes "ssl_ocsp_request ssl cert issuer ctx timeout flags = Inr (rv, ctx')"
  shows "case consult ssl cert issuer timeout flags of
      Not_Applicable \<Rightarrow> rv = OCSP_STATUS_UNKNOWN \<and> ctx' = ctx
    | No_Request \<Rightarrow> rv = OCSP_STATUS_UNKNOWN \<and> sc_error ctx' = X509_V_ERR_APPLICATION_VERIFICATION
    | Verdict v \<Rightarrow> rv = status_of v \<and> (v = None \<longrightarrow> sc_error ctx' = X509_V_ERR_UNABLE_TO_GET_CRL)"
  using ssl_ocsp_request_consult [OF assms] by (auto split: consultation.splits)

theorem ssl_ocsp_request_refines_witness:
  "ssl_ocsp_request (sample_ssl 1) 10 11 sample_store 15 0 = Inr (1, sample_store) \<and>
   consult (sample_ssl 1) 10 11 15 0 = Verdict (Some Revoked) \<and> 1 = status_of (Some Revoked)"
proof -
  have r: "ssl_ocsp_request (sample_ssl 1) 10 11 sample_store 15 0 = Inr (1, sample_store)"
    by (simp add: sample_request)
  have c: "consult (sample_ssl 1) 10 11 15 0 = Verdict (Some Revoked)"
    by (simp add: sample_consult)
  have "1 = status_of (Some Revoked)"
    using ssl_ocsp_request_refines [OF r] unfolding c consultation.case by (rule conjunct1)
  with r c show ?thesis by blast
qed

text \<open>
  C1: which certificates the callback accepts, for a context that requests certificates
  (optional or required) and a certificate that OpenSSL has verified without error: exactly
  those within the verification depth for which the OCSP check is off or admits them. Without
  anybody to ask the certificate is admitted; without an answer it is admitted under soft-fail
  only; a first usable answer decides.
\<close>

theorem SSL_callback_SSL_verify_accepts:
  assumes "checked_mode c" and "SSL_callback_SSL_verify ssl c con ok ctx = Inr res"
    and "sc_error ctx = X509_V_OK"
  shows "vr_ok res \<longleftrightarrow> ok \<and> sc_error_depth ctx \<le> c_verify_depth c \<and>
      (c_no_ocsp_check c \<noteq> 0 \<or>
       admits (c_ocsp_soft_fail c \<noteq> 0) (consultation ssl ctx (c_ocsp_timeout c) (c_ocsp_verify_flags c)))"
  using SSL_callback_SSL_verify_checked(1) [OF assms] .

theorem SSL_callback_SSL_verify_accepts_witness:
  "\<exists>res. SSL_callback_SSL_verify (sample_ssl 9) (sample_ctxt 0) sample_con True sample_store = Inr res \<and>
    (vr_ok res \<longleftrightarrow> True \<and> sc_error_depth sample_store \<le> c_verify_depth (sample_ctxt 0) \<and>
      (c_no_ocsp_check (sample_ctxt 0) \<noteq> 0 \<or>
       admits (c_ocsp_soft_fail (sample_ctxt 0) \<noteq> 0)
         (consultation (sample_ssl 9) sample_store (c_ocsp_timeout (sample_ctxt 0))
           (c_ocsp_verify_flags (sample_ctxt 0)))))"
proof -
  have m: "checked_mode (sample_ctxt 0)" and e: "sc_error sample_store = X509_V_OK"
    by (simp_all add: checked_mode_def sample_ctxt_def sample_store_def)
  obtain res where r: "SSL_callback_SSL_verify (sample_ssl 9) (sample_ctxt 0) sample_con True sample_store = Inr res"
    by (simp add: sample_callback)
  show ?thesis
    by (intro exI conjI) (rule r, rule SSL_callback_SSL_verify_accepts [OF m r e])
qed

text \<open>
  C3: a certificate that the first usable answer revokes is rejected, whatever the soft-fail
  setting, with the error \<open>X509_V_ERR_CERT_REVOKED\<close>.
\<close>

theorem SSL_callback_SSL_verify_revoked:
  assumes "checked_mode c" and "SSL_callback_SSL_verify ssl c con True ctx = Inr res"
    and "sc_error ctx = X509_V_OK" and "c_no_ocsp_check c = 0"
    and "consultation ssl ctx (c_ocsp_timeout c) (c_ocsp_verify_flags c) = Verdict (Some Revoked)"
  shows "\<not> vr_ok res \<and> sc_error (vr_store res) = X509_V_ERR_CERT_REVOKED"
  using SSL_callback_SSL_verify_checked [OF assms(1-3)] assms(4,5) by (simp add: admits_def)

theorem SSL_callback_SSL_verify_revoked_witness:
  "\<exists>res. SSL_callback_SSL_verify (sample_ssl 1) (sample_ctxt 1) sample_con True sample_store = Inr res \<and>
    \<not> vr_ok res \<and> sc_error (vr_store res) = X509_V_ERR_CERT_REVOKED"
proof -
  obtain res where r: "SSL_callback_SSL_verify (sample_ssl 1) (sample_ctxt 1) sample_con True sample_store = Inr res"
    by (simp add: sample_callback)
  have "\<not> vr_ok res \<and> sc_error (vr_store res) = X509_V_ERR_CERT_REVOKED"
  proof (rule SSL_callback_SSL_verify_revoked [OF _ r])
    show "consultation (sample_ssl 1) sample_store (c_ocsp_timeout (sample_ctxt 1)) (c_ocsp_verify_flags (sample_ctxt 1))
        = Verdict (Some Revoked)"
      by (simp add: consultation_def sample_store_def sample_consult) (simp add: sample_ssl_def)
  qed (simp_all add: checked_mode_def sample_ctxt_def sample_store_def)
  with r show ?thesis by blast
qed

text \<open>
  C34: under soft-fail a certificate is also accepted when every responder did answer, but no
  answer carried a valid signature: soft-fail covers more than responders that cannot be
  reached or are slow.
\<close>

theorem SSL_callback_SSL_verify_soft_fail_unsigned:
  assumes "checked_mode c" and "SSL_callback_SSL_verify ssl c con True ctx = Inr res"
    and "sc_error ctx = X509_V_OK" and "sc_error_depth ctx \<le> c_verify_depth c"
    and "c_ocsp_soft_fail c \<noteq> 0"
    and "consultation ssl ctx (c_ocsp_timeout c) (c_ocsp_verify_flags c) = Verdict v"
    and "\<And>r bs. o_basic ssl r = Some bs \<Longrightarrow> br_verify bs (c_ocsp_verify_flags c) \<le> 0"
  shows "vr_ok res"
proof -
  have "v = None"
  proof (rule ccontr)
    assume "v \<noteq> None"
    then obtain cert issuer urls req w where
      "urls_verdict ssl urls req cert issuer (c_ocsp_timeout c) (c_ocsp_verify_flags c) = Some w"
      using assms(6) by (auto simp: consultation_def consult_def split: option.splits if_split_asm sum.splits prod.splits)
    from urls_verdict_signed [OF this] assms(7) show False by fastforce
  qed
  then show ?thesis
    using SSL_callback_SSL_verify_checked(1) [OF assms(1-3)] assms(4-6) by (simp add: admits_def)
qed

theorem SSL_callback_SSL_verify_soft_fail_unsigned_witness:
  "\<exists>res. SSL_callback_SSL_verify (sample_ssl 9) (sample_ctxt 1) sample_con True sample_store = Inr res
    \<and> vr_ok res"
proof -
  obtain res where r: "SSL_callback_SSL_verify (sample_ssl 9) (sample_ctxt 1) sample_con True sample_store = Inr res"
    by (simp add: sample_callback)
  have "vr_ok res"
  proof (rule SSL_callback_SSL_verify_soft_fail_unsigned [OF _ r])
    show "consultation (sample_ssl 9) sample_store (c_ocsp_timeout (sample_ctxt 1)) (c_ocsp_verify_flags (sample_ctxt 1))
        = Verdict None"
      by (simp add: consultation_def sample_store_def sample_consult) (simp add: sample_ssl_def)
  qed (auto simp: checked_mode_def sample_ctxt_def sample_store_def sample_ssl_def)
  with r show ?thesis by blast
qed



text \<open>
  Over all the certificates of a chain, the peer certificate of the connection is
  released at most once, and only by forgetting it; the verdicts may come in any order.
\<close>

theorem verify_calls_free_peer_once:
  assumes "verify_calls ssl c con calls = Inr (con', evs)"
  shows "freed_peers evs = (if con_peer con' = con_peer con then [] else [the (con_peer con)]) \<and>
    (con_peer con' = con_peer con \<or> con_peer con' = None)"
  using verify_calls_peer [OF assms] by (auto split: option.splits)

theorem verify_calls_free_peer_once_witness:
  "\<exists>con' evs. verify_calls (sample_ssl 1) (sample_ctxt 0) sample_con
      [(True, sample_store), (True, sample_store)] = Inr (con', evs) \<and>
    freed_peers evs = (if con_peer con' = con_peer sample_con then [] else [the (con_peer sample_con)]) \<and>
    (con_peer con' = con_peer sample_con \<or> con_peer con' = None)"
proof -
  obtain con' evs where "verify_calls (sample_ssl 1) (sample_ctxt 0) sample_con
      [(True, sample_store), (True, sample_store)] = Inr (con', evs)"
    by (simp add: sample_callback Let_def)
  with verify_calls_free_peer_once [OF this] show ?thesis by blast
qed

end
