(* ===== verification/Ssl_Conn.thy ===== *)
theory Ssl_Conn
  imports Ssl_Certs Ocsp_Verify Interfaces
begin

text \<open>
  Connections, \<^verbatim>\<open>native/src/ssl.c\<close>: \<open>newSSL\<close>, \<open>freeSSL\<close>,
  \<open>ssl_con_pool_cleanup\<close> and \<open>ssl_info_callback\<close> with the counters that guard against
  double destruction; \<open>SSL_callback_handshake\<close> of \<^verbatim>\<open>native/src/sslutils.c\<close>; post
  handshake authentication; and the per-connection settings and getters. The certificate
  verification callback of Java, \<open>SSL_cert_verify\<close> of \<^verbatim>\<open>native/src/sslcontext.c\<close>, is
  here as well.

  The two counters are allocated by \<open>malloc\<close> and the connection lives in its own pool, a
  child of the context's pool. An access to memory that has been released is a fault.
\<close>

unbundle bit_operations_syntax

section \<open>The life of a connection\<close>

text \<open>
  The counters are \<open>None\<close> when they have been freed; \<open>cs_data3\<close> and \<open>cs_data4\<close> say whether
  the \<open>SSL\<close> has their addresses as application data, NULL otherwise; \<open>cs_destroyed\<close> counts
  how often the pool was destroyed.
\<close>

record conn_state =
  cs_ssl_live :: bool
  cs_handshakeCount :: "nat option"
  cs_destroyCount :: "nat option"
  cs_data3 :: bool
  cs_data4 :: bool
  cs_pool_live :: bool
  cs_destroyed :: nat
  cs_con :: tcn_ssl_conn_t

datatype conn_event =
    Malloc_Free nat
  | SSL_free
  | Destroy_Conn_Pool
  | Throw_Exn string
  | Set_Info_Callback info_callback
  | Set_Accept_State
  | Set_Connect_State
  | Set_Result int
  | Rand_Seed "byte list option"
  | Register_Conn_Cleanup

text \<open>
  What \<open>newSSL\<close> depends on: the two \<open>malloc\<close>s, \<open>SSL_new\<close>, the pool, \<open>apr_pcalloc\<close>, and
  whether \<open>SSL_set_app_data3\<close> and \<open>SSL_set_app_data4\<close> store anything, which they do when
  their indices have been obtained.
\<close>

record new_env =
  w_malloc1 :: bool
  w_malloc2 :: bool
  w_ssl_new :: "ptr option"
  w_pool :: bool
  w_pcalloc :: bool
  w_idx3 :: bool
  w_idx4 :: bool

definition newSSL ::
  "new_env \<Rightarrow> bool \<Rightarrow> tcn_ssl_ctxt_t \<Rightarrow> (conn_state option \<times> conn_event list) run" where
  "newSSL w server c =
     (case w_ssl_new w of
        None \<Rightarrow> Inr (None, [Malloc_Free 1, Malloc_Free 2, Throw_Exn ''cannot create new ssl''])
      | Some ssl \<Rightarrow>
          if \<not> w_pool w then Inr (None, [Malloc_Free 1, Malloc_Free 2, SSL_free, Throw_Exn ''APR''])
          else if \<not> w_pcalloc w
          then Inr (None, [Malloc_Free 1, Malloc_Free 2, SSL_free, Destroy_Conn_Pool, Throw_Exn ''APR''])
          else if \<not> w_malloc1 w \<or> \<not> w_malloc2 w then Inl Null_Deref
          else Inr
            (Some \<lparr>cs_ssl_live = True, cs_handshakeCount = Some 0, cs_destroyCount = Some 0,
                   cs_data3 = w_idx3 w, cs_data4 = w_idx4 w, cs_pool_live = True, cs_destroyed = 0,
                   cs_con = \<lparr>con_ssl = Some ssl, con_peer = None, con_shutdown_type = c_shutdown_type c,
                     con_reneg_state = RENEG_INIT, con_pha_state = PHA_NONE\<rparr>\<rparr>,
             [Set_Info_Callback ssl_info_callback_cb,
              if server then Set_Accept_State else Set_Connect_State,
              Set_Result X509_V_OK, Rand_Seed (c_rand_file c), Register_Conn_Cleanup]))"

definition SSL_CB_HANDSHAKE_START :: "32 word" where "SSL_CB_HANDSHAKE_START = 0x10"
definition SSL_CB_HANDSHAKE_DONE :: "32 word" where "SSL_CB_HANDSHAKE_DONE = 0x20"

text \<open>The counters are of type \<open>int\<close>; that of the destructions never exceeds one.\<close>

definition ssl_info_callback :: "32 word \<Rightarrow> conn_state \<Rightarrow> conn_state run" where
  "ssl_info_callback wh s =
     (if wh AND SSL_CB_HANDSHAKE_DONE \<noteq> 0 \<and> cs_data3 s then
        (case cs_handshakeCount s of
           None \<Rightarrow> Inl Use_After_Free
         | Some n \<Rightarrow>
             if n = 2 ^ 31 - 1 then Inl Signed_Overflow
             else Inr (s\<lparr>cs_handshakeCount := Some (n + 1)\<rparr>))
      else Inr s)"

definition ssl_con_pool_cleanup :: "conn_state \<Rightarrow> conn_state run" where
  "ssl_con_pool_cleanup s =
     (if \<not> cs_ssl_live s then Inl Use_After_Free
      else if \<not> cs_data4 s then Inr s
      else
        (case cs_destroyCount s of
           None \<Rightarrow> Inl Use_After_Free
         | Some n \<Rightarrow>
             if n = 2 ^ 31 - 1 then Inl Signed_Overflow
             else Inr (s\<lparr>cs_destroyCount := Some (n + 1)\<rparr>)))"

text \<open>\<open>apr_pool_destroy\<close> on the connection's pool, which runs the cleanup registered there.\<close>

definition destroy_conn_pool :: "conn_state \<Rightarrow> conn_state run" where
  "destroy_conn_pool s =
     (if \<not> cs_pool_live s then Inl Use_After_Free
      else run_bind (ssl_con_pool_cleanup s) (\<lambda>s.
        Inr (s\<lparr>cs_pool_live := False, cs_destroyed := cs_destroyed s + 1\<rparr>)))"

text \<open>The destruction of the context's pool takes along the child pools that still exist.\<close>

definition destroy_parent :: "conn_state \<Rightarrow> conn_state run" where
  "destroy_parent s = (if cs_pool_live s then destroy_conn_pool s else Inr s)"

text \<open>The counters that the \<open>SSL\<close> knows are freed.\<close>

definition freeSSL :: "conn_state \<Rightarrow> conn_state run" where
  "freeSSL s =
     (if \<not> cs_ssl_live s then Inl Use_After_Free
      else
        run_bind
          (if cs_data4 s then
             (case cs_destroyCount s of
                None \<Rightarrow> Inl Use_After_Free
              | Some n \<Rightarrow> if n = 0 then destroy_conn_pool s else Inr s)
           else Inr s)
          (\<lambda>s. if cs_data4 s \<and> cs_destroyCount s = None \<or> cs_data3 s \<and> cs_handshakeCount s = None
               then Inl Bad_Free
               else Inr (s\<lparr>cs_destroyCount := if cs_data4 s then None else cs_destroyCount s,
                           cs_handshakeCount := if cs_data3 s then None else cs_handshakeCount s,
                           cs_ssl_live := False\<rparr>)))"

definition getHandshakeCount :: "conn_state option \<Rightarrow> int run" where
  "getHandshakeCount ssl =
     (case ssl of
        None \<Rightarrow> Inr (-1)
      | Some s \<Rightarrow>
          if \<not> cs_ssl_live s then Inl Use_After_Free
          else if cs_data3 s
          then (case cs_handshakeCount s of None \<Rightarrow> Inl Use_After_Free | Some n \<Rightarrow> Inr (int n))
          else Inr 0)"

text \<open>What can happen to a connection.\<close>

datatype conn_op = Info "32 word" | Destroy_Parent | Free_SSL

fun conn_exec :: "conn_op \<Rightarrow> conn_state \<Rightarrow> conn_state run" where
  "conn_exec (Info wh) s = ssl_info_callback wh s"
| "conn_exec Destroy_Parent s = destroy_parent s"
| "conn_exec Free_SSL s = freeSSL s"

definition conn_run :: "conn_op list \<Rightarrow> conn_state \<Rightarrow> conn_state run" where
  "conn_run = run_ops conn_exec"

lemma conn_run_simps [simp]:
  "conn_run [] s = Inr s"
  "conn_run (op # ops) s = run_bind (conn_exec op s) (conn_run ops)"
  by (simp_all add: conn_run_def)

text \<open>
  The invariant of a connection in use: the destroy counter says whether the pool still
  exists.
\<close>

definition conn_ok :: "conn_state \<Rightarrow> bool" where
  "conn_ok s \<longleftrightarrow> cs_ssl_live s \<and> cs_data3 s \<and> cs_data4 s \<and> cs_handshakeCount s \<noteq> None \<and>
     cs_destroyCount s = Some (if cs_pool_live s then 0 else 1) \<and>
     cs_destroyed s = (if cs_pool_live s then 0 else 1)"

definition conn_gone :: "conn_state \<Rightarrow> bool" where
  "conn_gone s \<longleftrightarrow> \<not> cs_ssl_live s \<and> cs_handshakeCount s = None \<and> cs_destroyCount s = None \<and>
     \<not> cs_pool_live s \<and> cs_destroyed s = 1"

definition handshakes :: "conn_op list \<Rightarrow> nat" where
  "handshakes ops = length (filter (\<lambda>op. case op of Info wh \<Rightarrow> wh AND SSL_CB_HANDSHAKE_DONE \<noteq> 0 | _ \<Rightarrow> False) ops)"

text \<open>There is room for \<open>n\<close> more handshakes in the counter.\<close>

definition count_room :: "nat \<Rightarrow> conn_state \<Rightarrow> bool" where
  "count_room n s \<longleftrightarrow> (\<forall>c. cs_handshakeCount s = Some c \<longrightarrow> c + n < 2 ^ 31)"

lemma conn_exec_ok:
  assumes "conn_ok s" and "op \<noteq> Free_SSL" and "count_room (Suc n) s"
  shows "ensures (conn_exec op s) (\<lambda>s'. conn_ok s' \<and> count_room n s' \<and> cs_con s' = cs_con s \<and>
    the (cs_handshakeCount s') = the (cs_handshakeCount s) + handshakes [op])"
  using assms
  by (cases op)
    (auto simp: conn_ok_def count_room_def handshakes_def ssl_info_callback_def destroy_parent_def destroy_conn_pool_def
      ssl_con_pool_cleanup_def)

interpretation conn: machine conn_exec "\<lambda>n s. conn_ok s \<and> count_room n s" "\<lambda>op. op \<noteq> Free_SSL"
  by unfold_locales (auto elim!: ensures_mono [OF conn_exec_ok])

text \<open>With the number of handshakes that the operations report.\<close>

lemma conn_run_ok:
  "conn_ok s \<Longrightarrow> Free_SSL \<notin> set ops \<Longrightarrow> count_room (length ops) s \<Longrightarrow>
   ensures (conn_run ops s) (\<lambda>s'. conn_ok s' \<and> cs_con s' = cs_con s \<and>
    the (cs_handshakeCount s') = the (cs_handshakeCount s) + handshakes ops)"
proof (induction ops arbitrary: s)
  case (Cons op ops)
  have op: "ensures (conn_exec op s) (\<lambda>s'. conn_ok s' \<and> count_room (length ops) s' \<and> cs_con s' = cs_con s \<and>
    the (cs_handshakeCount s') = the (cs_handshakeCount s) + handshakes [op])"
    using Cons.prems by (intro conn_exec_ok) auto
  have h: "handshakes (op # ops) = handshakes [op] + handshakes ops"
    by (simp add: handshakes_def)
  show ?case
    unfolding conn_run_simps ensures_simps h
    by (rule ensures_mono [OF op], rule ensures_mono [OF Cons.IH]) (use Cons.prems in auto)
qed (simp add: handshakes_def)

lemma freeSSL_ok: "conn_ok s \<Longrightarrow> ensures (freeSSL s) conn_gone"
  by (auto simp: conn_ok_def conn_gone_def freeSSL_def destroy_conn_pool_def ssl_con_pool_cleanup_def)

lemma conn_run_gone: "conn_gone s \<Longrightarrow> set ops \<subseteq> {Destroy_Parent} \<Longrightarrow> conn_run ops s = Inr s"
  by (induction ops) (auto simp: conn_gone_def destroy_parent_def)

lemma newSSL_fields: "newSSL w server c = Inr (Some s, evs) \<Longrightarrow> cs_handshakeCount s = Some 0
    \<and> cs_data3 s = w_idx3 w \<and> cs_data4 s = w_idx4 w
    \<and> cs_con s = \<lparr>con_ssl = w_ssl_new w, con_peer = None, con_shutdown_type = c_shutdown_type c,
        con_reneg_state = RENEG_INIT, con_pha_state = PHA_NONE\<rparr>"
  by (auto simp: newSSL_def split: option.splits if_split_asm)

lemma newSSL_ok: "newSSL w server c = Inr (Some s, evs) \<Longrightarrow> w_idx3 w \<and> w_idx4 w \<Longrightarrow> conn_ok s \<and> cs_handshakeCount s = Some 0
    \<and> cs_con s = \<lparr>con_ssl = w_ssl_new w, con_peer = None, con_shutdown_type = c_shutdown_type c,
        con_reneg_state = RENEG_INIT, con_pha_state = PHA_NONE\<rparr>"
  by (auto simp: newSSL_def conn_ok_def split: option.splits if_split_asm)

section \<open>Renegotiation\<close>

definition TLS1_3_VERSION_NUMBER :: int where "TLS1_3_VERSION_NUMBER = 0x0304"

text \<open>
  \<open>SSL_callback_handshake\<close>: \<open>session\<close> is the protocol version of the session, \<open>None\<close>
  without one; the connection may be missing.
\<close>

definition SSL_callback_handshake ::
  "int option \<Rightarrow> 32 word \<Rightarrow> tcn_ssl_conn_t option \<Rightarrow> tcn_ssl_conn_t option" where
  "SSL_callback_handshake session wh con =
     (case con of
        None \<Rightarrow> None
      | Some con \<Rightarrow>
          if session = Some TLS1_3_VERSION_NUMBER then Some con
          else if wh AND SSL_CB_HANDSHAKE_START \<noteq> 0 \<and> con_reneg_state con = RENEG_REJECT
          then Some (con\<lparr>con_reneg_state := RENEG_ABORT\<rparr>)
          else if wh AND SSL_CB_HANDSHAKE_DONE \<noteq> 0 \<and> con_reneg_state con = RENEG_INIT
          then Some (con\<lparr>con_reneg_state := RENEG_REJECT\<rparr>)
          else Some con)"

fun handshake_events :: "(int option \<times> 32 word) list \<Rightarrow> tcn_ssl_conn_t option \<Rightarrow> tcn_ssl_conn_t option" where
  "handshake_events [] con = con"
| "handshake_events ((session, wh) # evs) con = handshake_events evs (SSL_callback_handshake session wh con)"

text \<open>The events that count: those outside TLS 1.3.\<close>

definition starts :: "int option \<times> 32 word \<Rightarrow> bool" where
  "starts e \<longleftrightarrow> fst e \<noteq> Some TLS1_3_VERSION_NUMBER \<and> snd e AND SSL_CB_HANDSHAKE_START \<noteq> 0"

definition dones :: "int option \<times> 32 word \<Rightarrow> bool" where
  "dones e \<longleftrightarrow> fst e \<noteq> Some TLS1_3_VERSION_NUMBER \<and> snd e AND SSL_CB_HANDSHAKE_DONE \<noteq> 0"

text \<open>A handshake that starts after one that was completed.\<close>

definition restarted :: "(int option \<times> 32 word) list \<Rightarrow> bool" where
  "restarted evs \<longleftrightarrow> (\<exists>pre e post. evs = pre @ e # post \<and> dones e \<and> (\<exists>x \<in> set post. starts x))"

lemma restarted_Cons: "restarted (e # evs) \<longleftrightarrow> dones e \<and> (\<exists>x \<in> set evs. starts x) \<or> restarted evs"
proof -
  have "restarted (e # evs)" if "dones e" "x \<in> set evs" "starts x" for x
    unfolding restarted_def using that by (intro exI [of _ "[]"]) auto
  moreover have "restarted (e # evs)" if "restarted evs"
    using that unfolding restarted_def by (metis append_Cons)
  moreover have "dones e \<and> (\<exists>x \<in> set evs. starts x) \<or> restarted evs" if "restarted (e # evs)"
  proof -
    from that obtain pre f post where "e # evs = pre @ f # post" "dones f" "\<exists>x \<in> set post. starts x"
      unfolding restarted_def by blast
    then show ?thesis
    proof (cases pre)
      case (Cons a list)
      then have "evs = list @ f # post" using \<open>e # evs = pre @ f # post\<close> by simp
      then show ?thesis
        unfolding restarted_def using \<open>dones f\<close> \<open>\<exists>x \<in> set post. starts x\<close> by blast
    qed auto
  qed
  ultimately show ?thesis by blast
qed

lemma restarted_starts: "restarted evs \<Longrightarrow> \<exists>x \<in> set evs. starts x"
  unfolding restarted_def by auto

lemma handshake_step:
  "SSL_callback_handshake (fst e) (snd e) (Some con) =
    Some (con\<lparr>con_reneg_state :=
      if starts e \<and> con_reneg_state con = RENEG_REJECT then RENEG_ABORT
      else if dones e \<and> con_reneg_state con = RENEG_INIT then RENEG_REJECT else con_reneg_state con\<rparr>)"
  by (auto simp: SSL_callback_handshake_def starts_def dones_def)

lemma handshake_events_state:
  "\<exists>con'. handshake_events evs (Some con) = Some con' \<and>
    (con_reneg_state con = RENEG_INIT \<longrightarrow> (con_reneg_state con' = RENEG_ABORT \<longleftrightarrow> restarted evs)) \<and>
    (con_reneg_state con = RENEG_REJECT \<longrightarrow> (con_reneg_state con' = RENEG_ABORT \<longleftrightarrow> (\<exists>x \<in> set evs. starts x))) \<and>
    (con_reneg_state con \<in> {RENEG_ABORT, RENEG_ALLOW} \<longrightarrow> con_reneg_state con' = con_reneg_state con)"
proof (induction evs arbitrary: con)
  case Nil
  then show ?case by (simp add: restarted_def)
next
  case (Cons e evs)
  obtain session wh where e: "e = (session, wh)" by fastforce
  let ?con = "con\<lparr>con_reneg_state :=
      if starts e \<and> con_reneg_state con = RENEG_REJECT then RENEG_ABORT
      else if dones e \<and> con_reneg_state con = RENEG_INIT then RENEG_REJECT else con_reneg_state con\<rparr>"
  have 1: "handshake_events (e # evs) (Some con) = handshake_events evs (Some ?con)"
    using handshake_step [of e con] by (simp only: e handshake_events.simps fst_conv snd_conv)
  show ?case
    unfolding 1 using Cons.IH [of ?con] restarted_starts [of evs] by (auto simp: restarted_Cons)
qed

text \<open>
  The info callback that OpenSSL calls is the one the \<open>SSL_CTX\<close> has last been given.
\<close>

definition info_event ::
  "info_callback \<Rightarrow> int option \<Rightarrow> 32 word \<Rightarrow> conn_state \<Rightarrow> conn_state run" where
  "info_event cb session wh s =
     (case cb of
        ssl_info_callback_cb \<Rightarrow> ssl_info_callback wh s
      | SSL_callback_handshake_cb \<Rightarrow>
          (case SSL_callback_handshake session wh (Some (cs_con s)) of
             None \<Rightarrow> Inr s
           | Some con \<Rightarrow> Inr (s\<lparr>cs_con := con\<rparr>)))"

fun info_events ::
  "info_callback \<Rightarrow> (int option \<times> 32 word) list \<Rightarrow> conn_state \<Rightarrow> conn_state run" where
  "info_events cb [] s = Inr s"
| "info_events cb ((session, wh) # evs) s = run_bind (info_event cb session wh s) (info_events cb evs)"

fun active_callback :: "info_callback \<Rightarrow> conn_event list \<Rightarrow> info_callback" where
  "active_callback cb [] = cb"
| "active_callback cb (Set_Info_Callback cb' # evs) = active_callback cb' evs"
| "active_callback cb (_ # evs) = active_callback cb evs"

lemma info_events_ssl_info:
  "cs_handshakeCount s \<noteq> None \<Longrightarrow> count_room (length evs) s \<Longrightarrow>
   ensures (info_events ssl_info_callback_cb evs s) (\<lambda>s'. cs_con s' = cs_con s)"
proof (induction evs arbitrary: s)
  case (Cons e evs)
  obtain session wh where e: "e = (session, wh)" by fastforce
  have "ensures (info_event ssl_info_callback_cb session wh s)
      (\<lambda>s'. cs_handshakeCount s' \<noteq> None \<and> count_room (length evs) s' \<and> cs_con s' = cs_con s)"
    using Cons.prems by (auto simp: info_event_def ssl_info_callback_def count_room_def)
  then have "ensures (info_event ssl_info_callback_cb session wh s)
      (\<lambda>s'. ensures (info_events ssl_info_callback_cb evs s') (\<lambda>s''. cs_con s'' = cs_con s))"
    by (rule ensures_mono) (rule ensures_mono [OF Cons.IH]; simp)
  then show ?case by (simp add: e)
qed simp

section \<open>Post handshake authentication\<close>

text \<open>
  The connection is reached through the \<open>SSL\<close>; it is gone when its pool was destroyed.
  \<open>None\<close> is a NULL \<open>SSL\<close>, for which an exception is thrown.
\<close>

definition the_conn :: "conn_state option \<Rightarrow> conn_state option run" where
  "the_conn ssl =
     (case ssl of
        None \<Rightarrow> Inr None
      | Some s \<Rightarrow> if \<not> cs_ssl_live s \<or> \<not> cs_pool_live s then Inl Use_After_Free else Inr (Some s))"

definition verifyClientPostHandshake :: "int \<Rightarrow> conn_state option \<Rightarrow> (int \<times> conn_state option) run" where
  "verifyClientPostHandshake res ssl =
     run_bind (the_conn ssl) (\<lambda>r. case r of
       None \<Rightarrow> Inr (0, None)
     | Some s \<Rightarrow> Inr (res, Some (s\<lparr>cs_con := (cs_con s)\<lparr>con_pha_state := PHA_STARTED\<rparr>\<rparr>)))"

definition getPostHandshakeAuthInProgress :: "conn_state option \<Rightarrow> bool run" where
  "getPostHandshakeAuthInProgress ssl =
     run_bind (the_conn ssl) (\<lambda>r. case r of
       None \<Rightarrow> Inr False
     | Some s \<Rightarrow> Inr (con_pha_state (cs_con s) = PHA_STARTED))"

definition markPostHandshakeAuthComplete :: "conn_state option \<Rightarrow> conn_state option run" where
  "markPostHandshakeAuthComplete ssl =
     run_bind (the_conn ssl) (\<lambda>r. case r of
       None \<Rightarrow> Inr None
     | Some s \<Rightarrow> Inr (Some (s\<lparr>cs_con := (cs_con s)\<lparr>con_pha_state := PHA_COMPLETE\<rparr>\<rparr>)))"

section \<open>Settings and getters of a connection\<close>

datatype ssl_call =
    SSL_set_verify int
  | SSL_set_options "32 word"
  | SSL_set_cipher_list "byte list"
  | SSL_set_ciphersuites "byte list"
  | SSL_Throw string

text \<open>\<open>SSL.setVerify\<close> changes the context of the connection, which other connections share.\<close>

definition SSL_setVerify ::
  "ptr option \<Rightarrow> bool \<Rightarrow> int \<Rightarrow> int \<Rightarrow> tcn_ssl_ctxt_t option \<Rightarrow> tcn_ssl_ctxt_t option \<times> ssl_call list" where
  "SSL_setVerify cert_store ssl_null level depth c =
     (if ssl_null then (c, [SSL_Throw ''ssl is null''])
      else
        (case c of
           None \<Rightarrow> (None, [SSL_Throw ''context is null''])
         | Some c \<Rightarrow>
             (let c = set_verify_fields cert_store level depth c
              in (Some c, [SSL_set_verify (verify_flags (c_verify_mode c))]))))"

definition SSL_setOptions :: "bool \<Rightarrow> 32 word \<Rightarrow> ssl_call list" where
  "SSL_setOptions ssl_null opt = (if ssl_null then [SSL_Throw ''ssl is null''] else [SSL_set_options opt])"

definition SSL_setCipherSuites ::
  "bool \<Rightarrow> (byte list \<Rightarrow> bool) \<Rightarrow> byte list option \<Rightarrow> bool \<Rightarrow> (bool \<times> ssl_call list) run" where
  "SSL_setCipherSuites malloc_ok accepts cipherList ssl_null =
     (if ssl_null then Inr (False, [SSL_Throw ''ssl is null''])
      else
        (case cipherList of
           None \<Rightarrow> Inr (False, [])
         | Some s \<Rightarrow>
             if \<not> malloc_ok then Inr (False, [])
             else run_bind (cipher_buf s) (\<lambda>buf.
                  run_bind (rdn_cell buf 0 (length buf)) (\<lambda>bs.
                  if \<not> accepts (c_str bs)
                  then Inr (False, [SSL_set_cipher_list (c_str bs),
                                    SSL_Throw ''Unable to configure permitted SSL ciphers''])
                  else Inr (True, [SSL_set_cipher_list (c_str bs)])))))"

definition SSL_setCipherSuitesEx ::
  "(byte list \<Rightarrow> bool) \<Rightarrow> byte list option \<Rightarrow> bool \<Rightarrow> bool \<times> ssl_call list" where
  "SSL_setCipherSuitesEx accepts cipherSuites ssl_null =
     (if ssl_null then (False, [SSL_Throw ''ssl is null''])
      else
        (case cipherSuites of
           None \<Rightarrow> (False, [])
         | Some s \<Rightarrow>
             if \<not> accepts (c_str s)
             then (False, [SSL_set_ciphersuites (c_str s), SSL_Throw ''Unable to configure permitted SSL cipher suites''])
             else (True, [SSL_set_ciphersuites (c_str s)])))"

text \<open>
  The chain of the peer as Java arrays: \<open>None\<close> is NULL (no \<open>SSL\<close>, which throws, or no
  chain). A certificate that cannot be encoded empties the whole result.
\<close>

fun encode_chain :: "('c \<Rightarrow> byte list option) \<Rightarrow> 'c list \<Rightarrow> byte list list option" where
  "encode_chain i2d [] = Some []"
| "encode_chain i2d (x # xs) =
     (case i2d x of
        None \<Rightarrow> None
      | Some b \<Rightarrow> (case encode_chain i2d xs of None \<Rightarrow> None | Some bs \<Rightarrow> Some (b # bs)))"

definition getPeerCertChain ::
  "('c \<Rightarrow> byte list option) \<Rightarrow> 'c list \<Rightarrow> bool \<Rightarrow> byte list list option \<times> ssl_call list" where
  "getPeerCertChain i2d sk ssl_null =
     (if ssl_null then (None, [SSL_Throw ''ssl is null''])
      else if length sk = 0 then (None, [])
      else (case encode_chain i2d sk of None \<Rightarrow> (Some [], []) | Some bs \<Rightarrow> (Some bs, [])))"

definition getSessionId :: "byte list option option \<Rightarrow> bool \<Rightarrow> byte list option \<times> ssl_call list" where
  "getSessionId session ssl_null =
     (if ssl_null then (None, [SSL_Throw ''ssl is null''])
      else
        (case session of
           None \<Rightarrow> (None, [])
         | Some session_id \<Rightarrow>
             (case session_id of None \<Rightarrow> (None, []) | Some b \<Rightarrow> if length b = 0 then (None, []) else (Some b, []))))"

section \<open>Verification by Java\<close>

datatype key_exchange = kRSA | kDHE | kECDHE | kx_other
datatype authentication = aRSA | aDSS | aECDSA | aNULL | auth_other

definition SSL_CIPHER_authentication_method :: "(key_exchange \<times> authentication) option \<Rightarrow> string" where
  "SSL_CIPHER_authentication_method cipher =
     (case cipher of
        None \<Rightarrow> ''UNKNOWN''
      | Some (kx, auth) \<Rightarrow>
          (case kx of
             kRSA \<Rightarrow> ''RSA''
           | kDHE \<Rightarrow>
               (case auth of aDSS \<Rightarrow> ''DHE_DSS'' | aRSA \<Rightarrow> ''DHE_RSA'' | aNULL \<Rightarrow> ''DH_anon'' | _ \<Rightarrow> ''UNKNOWN'')
           | kECDHE \<Rightarrow>
               (case auth of aECDSA \<Rightarrow> ''ECDHE_ECDSA'' | aRSA \<Rightarrow> ''ECDHE_RSA'' | aNULL \<Rightarrow> ''ECDH_anon'' | _ \<Rightarrow> ''UNKNOWN'')
           | kx_other \<Rightarrow> ''UNKNOWN''))"

text \<open>The chain of OpenSSL goes to the Java verifier with the name of the method.\<close>

definition SSL_cert_verify ::
  "('c \<Rightarrow> byte list option) \<Rightarrow> (byte list list \<Rightarrow> string \<Rightarrow> bool) \<Rightarrow> 'c list
   \<Rightarrow> (key_exchange \<times> authentication) option \<Rightarrow> int" where
  "SSL_cert_verify i2d verifier untrusted cipher =
     (let array = (case encode_chain i2d untrusted of None \<Rightarrow> [] | Some bs \<Rightarrow> bs)
      in if verifier array (SSL_CIPHER_authentication_method cipher) then 1 else 0)"

lemma encode_chain_Some: "encode_chain i2d xs = Some bs \<longleftrightarrow> map i2d xs = map Some bs"
proof (induction xs arbitrary: bs)
  case (Cons x xs)
  then show ?case
    by (cases bs; cases "i2d x"; cases "encode_chain i2d xs") auto
qed auto

lemma encode_chain_None: "encode_chain i2d xs = None \<longleftrightarrow> (\<exists>x \<in> set xs. i2d x = None)"
  by (induction xs) (auto split: option.splits)

section \<open>Properties\<close>

text \<open>
  C11: the destroy counter prevents double destruction. Whatever handshake events a new
  connection sees, and whether or not the context's pool is destroyed before \<open>freeSSL\<close>, after
  it, or both, no released memory is touched, everything is released, and the connection's
  pool is destroyed exactly once, provided that the indices of the application data exist and
  the number of handshakes fits into an \<open>int\<close>.
\<close>

theorem freeSSL_no_double_destroy:
  assumes "newSSL w server c = Inr (Some s, evs)" and "w_idx3 w" and "w_idx4 w" and "length pre < 2 ^ 31"
    and "Free_SSL \<notin> set pre" and "set post \<subseteq> {Destroy_Parent}"
  shows "\<exists>s'. conn_run (pre @ [Free_SSL] @ post) s = Inr s' \<and> conn_gone s'"
proof -
  have s: "conn_ok s" "count_room (length pre + 0) s"
    using newSSL_ok [OF assms(1)] assms(2-4) by (auto simp: count_room_def)
  have "ensures (conn_run pre s) (\<lambda>s. conn_ok s \<and> count_room 0 s)"
    unfolding conn_run_def by (rule conn.run) (use s assms(5) in auto)
  then have "ensures (conn_run (pre @ [Free_SSL] @ post) s) conn_gone"
    unfolding conn_run_def run_ops_append ensures_simps
  proof (rule ensures_mono)
    fix x
    assume "conn_ok x \<and> count_room 0 x"
    then have "conn_ok x" by blast
    from freeSSL_ok [OF this] show "ensures (run_ops conn_exec [Free_SSL] x) (\<lambda>y. ensures (run_ops conn_exec post y) conn_gone)"
      using conn_run_gone [OF _ assms(6)] by (auto simp: conn_run_def elim!: ensures_mono)
  qed
  then show ?thesis by (auto simp: ensures_def)
qed

theorem freeSSL_no_double_destroy_witness:
  "\<exists>s evs s'. newSSL \<lparr>w_malloc1 = True, w_malloc2 = True, w_ssl_new = Some 4, w_pool = True, w_pcalloc = True,
      w_idx3 = True, w_idx4 = True\<rparr>
      True zero_ctxt = Inr (Some s, evs) \<and>
    conn_run ([Info 0x20, Destroy_Parent] @ [Free_SSL] @ [Destroy_Parent]) s = Inr s' \<and> conn_gone s'"
proof -
  obtain s evs where n: "newSSL \<lparr>w_malloc1 = True, w_malloc2 = True, w_ssl_new = Some 4, w_pool = True,
      w_pcalloc = True,
      w_idx3 = True, w_idx4 = True\<rparr> True zero_ctxt = Inr (Some s, evs)"
    by (simp add: newSSL_def)
  have "\<exists>s'. conn_run ([Info 0x20, Destroy_Parent] @ [Free_SSL] @ [Destroy_Parent]) s = Inr s' \<and> conn_gone s'"
    by (rule freeSSL_no_double_destroy [OF n]) simp_all
  with n show ?thesis by blast
qed

text \<open>
  While a connection is in use, its handshake count is the number of completed handshakes
  that OpenSSL has reported, whatever else happens.
\<close>

theorem getHandshakeCount_counts:
  assumes "newSSL w server c = Inr (Some s, evs)" and "w_idx3 w" and "w_idx4 w"
    and "Free_SSL \<notin> set ops" and "length ops < 2 ^ 31"
  shows "\<exists>s'. conn_run ops s = Inr s' \<and> getHandshakeCount (Some s') = Inr (int (handshakes ops))"
proof -
  have s: "conn_ok s" "cs_handshakeCount s = Some 0" "count_room (length ops) s"
    using newSSL_ok [OF assms(1)] assms(2,3,5) by (auto simp: count_room_def)
  from conn_run_ok [OF s(1) assms(4) s(3)] obtain s' where s': "conn_run ops s = Inr s'" "conn_ok s'"
    "the (cs_handshakeCount s') = handshakes ops"
    using s(2) by (auto simp: ensures_def)
  then have "getHandshakeCount (Some s') = Inr (int (handshakes ops))"
    by (auto simp: getHandshakeCount_def conn_ok_def)
  with s'(1) show ?thesis by blast
qed

theorem getHandshakeCount_counts_witness:
  "\<exists>s evs s'. newSSL \<lparr>w_malloc1 = True, w_malloc2 = True, w_ssl_new = Some 4, w_pool = True, w_pcalloc = True,
      w_idx3 = True, w_idx4 = True\<rparr>
      False zero_ctxt = Inr (Some s, evs) \<and>
    conn_run [Info 0x20, Info 0x10, Destroy_Parent, Info 0x30] s = Inr s' \<and>
    getHandshakeCount (Some s') = Inr (int (handshakes [Info 0x20, Info 0x10, Destroy_Parent, Info 0x30]))"
proof -
  obtain s evs where n: "newSSL \<lparr>w_malloc1 = True, w_malloc2 = True, w_ssl_new = Some 4, w_pool = True,
      w_pcalloc = True,
      w_idx3 = True, w_idx4 = True\<rparr> False zero_ctxt = Inr (Some s, evs)"
    by (simp add: newSSL_def)
  have "\<exists>s'. conn_run [Info 0x20, Info 0x10, Destroy_Parent, Info 0x30] s = Inr s' \<and>
    getHandshakeCount (Some s') = Inr (int (handshakes [Info 0x20, Info 0x10, Destroy_Parent, Info 0x30]))"
    by (rule getHandshakeCount_counts [OF n]) simp_all
  with n show ?thesis by blast
qed

text \<open>
  The renegotiation callback aborts exactly the renegotiations it is meant to catch:
  starting from a new connection, it ends in \<open>RENEG_ABORT\<close> if and only if, outside TLS 1.3, a
  handshake starts after one has been completed.
\<close>

theorem SSL_callback_handshake_aborts_iff:
  "\<exists>con'. handshake_events evs (Some (con\<lparr>con_reneg_state := RENEG_INIT\<rparr>)) = Some con' \<and>
    (con_reneg_state con' = RENEG_ABORT \<longleftrightarrow> restarted evs)"
  using handshake_events_state [of evs "con\<lparr>con_reneg_state := RENEG_INIT\<rparr>"] by auto

text \<open>
  C31: no connection made by \<open>newSSL\<close> is watched for renegotiation: \<open>newSSL\<close> replaces the
  callback of the whole context by the one that counts handshakes, so that the renegotiation state
  stays \<open>RENEG_INIT\<close> whatever the peer does.
\<close>

theorem newSSL_disables_reneg_check:
  assumes "newSSL w server c = Inr (Some s, evs)" and "length hs < 2 ^ 31"
  shows "ensures (info_events (active_callback SSL_callback_handshake_cb evs) hs s)
    (\<lambda>s'. con_reneg_state (cs_con s') = RENEG_INIT)"
proof -
  have "active_callback SSL_callback_handshake_cb evs = ssl_info_callback_cb"
    using assms(1) by (auto simp: newSSL_def split: option.splits if_split_asm)
  moreover have "cs_handshakeCount s \<noteq> None" and "count_room (length hs) s"
    and "con_reneg_state (cs_con s) = RENEG_INIT"
    using newSSL_fields [OF assms(1)] assms(2) by (auto simp: count_room_def)
  ultimately show ?thesis
    using info_events_ssl_info [of s hs] by (auto elim: ensures_mono)
qed

theorem newSSL_disables_reneg_check_witness:
  "\<exists>s evs. newSSL \<lparr>w_malloc1 = True, w_malloc2 = True, w_ssl_new = Some 4, w_pool = True, w_pcalloc = True,
      w_idx3 = True, w_idx4 = True\<rparr>
      True zero_ctxt = Inr (Some s, evs) \<and> restarted [(Some 0x303, 0x20), (Some 0x303, 0x10)] \<and>
    ensures (info_events (active_callback SSL_callback_handshake_cb evs) [(Some 0x303, 0x20), (Some 0x303, 0x10)] s)
      (\<lambda>s'. con_reneg_state (cs_con s') = RENEG_INIT)"
proof -
  obtain s evs where n: "newSSL \<lparr>w_malloc1 = True, w_malloc2 = True, w_ssl_new = Some 4, w_pool = True,
      w_pcalloc = True,
      w_idx3 = True, w_idx4 = True\<rparr> True zero_ctxt = Inr (Some s, evs)"
    by (simp add: newSSL_def)
  have "restarted [(Some 0x303, 0x20), (Some 0x303, 0x10)]"
    by (simp add: restarted_Cons dones_def starts_def TLS1_3_VERSION_NUMBER_def SSL_CB_HANDSHAKE_DONE_def
        SSL_CB_HANDSHAKE_START_def)
  with newSSL_disables_reneg_check [OF n, of "[(Some 0x303, 0x20), (Some 0x303, 0x10)]"] n show ?thesis by auto
qed

end
