(* ===== verification/Ssl_Session.thy ===== *)
theory Ssl_Session
  imports Ssl_Conn Jni_Support
begin

text \<open>
  What Java reads from connections, sessions and contexts: the getters of
  \<^verbatim>\<open>native/src/ssl.c\<close> and \<^verbatim>\<open>native/src/sslcontext.c\<close> that ask OpenSSL and convert
  the answer, the calls that drive a connection (\<open>doHandshake\<close>, \<open>renegotiate\<close>, the reads
  and writes), and the pair of BIOs that connects it to the network.

  The answers of OpenSSL are arguments. A NULL \<open>SSL\<close> makes most of these calls throw; those
  that do not test for it pass it on to OpenSSL, whose function is the argument.
\<close>

section \<open>Numbers\<close>

text \<open>The conversion of the results of OpenSSL to \<open>jint\<close>.\<close>

definition jint_of :: "int \<Rightarrow> int" where
  "jint_of n = sint (word_of_int n :: 32 word)"

text \<open>Calls that test for NULL: the value or the exception.\<close>

definition tested :: "bool \<Rightarrow> int \<Rightarrow> int \<times> string option" where
  "tested ssl_null reply = (if ssl_null then (0, Some ''ssl is null'') else (jint_of reply, None))"

definition isInInit :: "bool \<Rightarrow> int \<Rightarrow> int \<times> string option" where
  "isInInit ssl_null reply = tested ssl_null reply"

definition doHandshake :: "bool \<Rightarrow> int \<Rightarrow> int \<times> string option" where
  "doHandshake ssl_null reply = tested ssl_null reply"

definition renegotiate :: "bool \<Rightarrow> int \<Rightarrow> int \<times> string option" where
  "renegotiate ssl_null reply = tested ssl_null reply"

definition renegotiatePending :: "bool \<Rightarrow> int \<Rightarrow> int \<times> string option" where
  "renegotiatePending ssl_null reply = tested ssl_null reply"

definition SSL_getOptions :: "bool \<Rightarrow> int \<Rightarrow> int \<times> string option" where
  "SSL_getOptions ssl_null reply = tested ssl_null reply"

text \<open>Calls that do not: \<open>ask\<close> is the function of OpenSSL on the pointer, NULL or not.\<close>

definition untested :: "(ptr option \<Rightarrow> int run) \<Rightarrow> ptr option \<Rightarrow> int run" where
  "untested ask p = run_bind (ask p) (\<lambda>n. Inr (jint_of n))"

definition pendingReadableBytesInSSL :: "(ptr option \<Rightarrow> int run) \<Rightarrow> ptr option \<Rightarrow> int run" where
  "pendingReadableBytesInSSL SSL_pending ssl = untested SSL_pending ssl"

definition getShutdown :: "(ptr option \<Rightarrow> int run) \<Rightarrow> ptr option \<Rightarrow> int run" where
  "getShutdown SSL_get_shutdown ssl = untested SSL_get_shutdown ssl"

definition SSLContext_getOptions :: "(ptr option \<Rightarrow> int run) \<Rightarrow> tcn_ssl_ctxt_t \<Rightarrow> int run" where
  "SSLContext_getOptions SSL_CTX_get_options c = untested SSL_CTX_get_options (c_ctx c)"

definition pendingWrittenBytesInBIO :: "(ptr option \<Rightarrow> int run) \<Rightarrow> ptr option \<Rightarrow> int run" where
  "pendingWrittenBytesInBIO BIO_ctrl_pending bio = untested BIO_ctrl_pending bio"

definition shutdownSSL :: "(ptr option \<Rightarrow> int run) \<Rightarrow> ptr option \<Rightarrow> int run" where
  "shutdownSSL SSL_shutdown ssl = untested SSL_shutdown ssl"

text \<open>The version of OpenSSL and the last number in its error queue.\<close>

definition SSL_version :: "int \<Rightarrow> int" where
  "SSL_version version_num = jint_of version_num"

definition getLastErrorNumber :: "int \<Rightarrow> int" where
  "getLastErrorNumber ssl_err = jint_of ssl_err"

text \<open>\<open>getTime\<close>: the exception without a session.\<close>

definition getTime :: "bool \<Rightarrow> int option \<Rightarrow> int \<times> string option" where
  "getTime ssl_null session =
     (if ssl_null then (0, Some ''ssl is null'')
      else (case session of None \<Rightarrow> (0, Some ''ssl session is null'') | Some t \<Rightarrow> (t, None)))"

text \<open>
  The session statistics of a context: the counters of OpenSSL, and which of them each of the
  operations of \<open>SSLContext\<close> returns.
\<close>

record sess_counters =
  SSL_CTX_sess_number :: int
  SSL_CTX_sess_connect :: int
  SSL_CTX_sess_connect_good :: int
  SSL_CTX_sess_connect_renegotiate :: int
  SSL_CTX_sess_accept :: int
  SSL_CTX_sess_accept_good :: int
  SSL_CTX_sess_accept_renegotiate :: int
  SSL_CTX_sess_hits :: int
  SSL_CTX_sess_cb_hits :: int
  SSL_CTX_sess_misses :: int
  SSL_CTX_sess_timeouts :: int
  SSL_CTX_sess_cache_full :: int
  SSL_CTX_sess_get_cache_size :: int
  SSL_CTX_get_timeout :: int
  SSL_CTX_get_session_cache_mode :: int

datatype statistic =
    sessionNumber | sessionConnect | sessionConnectGood | sessionConnectRenegotiate
  | sessionAccept | sessionAcceptGood | sessionAcceptRenegotiate
  | sessionHits | sessionCbHits | sessionMisses | sessionTimeouts | sessionCacheFull
  | getSessionCacheSize

fun session_statistic :: "statistic \<Rightarrow> sess_counters \<Rightarrow> int" where
  "session_statistic sessionNumber n = SSL_CTX_sess_number n"
| "session_statistic sessionConnect n = SSL_CTX_sess_connect n"
| "session_statistic sessionConnectGood n = SSL_CTX_sess_connect_good n"
| "session_statistic sessionConnectRenegotiate n = SSL_CTX_sess_connect_renegotiate n"
| "session_statistic sessionAccept n = SSL_CTX_sess_accept n"
| "session_statistic sessionAcceptGood n = SSL_CTX_sess_accept_good n"
| "session_statistic sessionAcceptRenegotiate n = SSL_CTX_sess_accept_renegotiate n"
| "session_statistic sessionHits n = SSL_CTX_sess_hits n"
| "session_statistic sessionCbHits n = SSL_CTX_sess_cb_hits n"
| "session_statistic sessionMisses n = SSL_CTX_sess_misses n"
| "session_statistic sessionTimeouts n = SSL_CTX_sess_timeouts n"
| "session_statistic sessionCacheFull n = SSL_CTX_sess_cache_full n"
| "session_statistic getSessionCacheSize n = SSL_CTX_sess_get_cache_size n"

definition getSessionCacheTimeout :: "sess_counters \<Rightarrow> int" where
  "getSessionCacheTimeout n = SSL_CTX_get_timeout n"

definition getSessionCacheMode :: "sess_counters \<Rightarrow> int" where
  "getSessionCacheMode n = SSL_CTX_get_session_cache_mode n"

section \<open>Strings and arrays\<close>

definition getCipherForSSL :: "'s jvm \<Rightarrow> byte list \<Rightarrow> 's option" where
  "getCipherForSSL env name = j_new_utf env (c_str name)"

definition SSL_versionString :: "'s jvm \<Rightarrow> byte list \<Rightarrow> 's option" where
  "SSL_versionString env name = j_new_utf env (c_str name)"

definition getVersion :: "'s jvm \<Rightarrow> byte list \<Rightarrow> 's option" where
  "getVersion env name = j_new_utf env (c_str name)"

text \<open>\<open>ERR_error_string_n\<close> fills at most the buffer, NUL included.\<close>

definition TCN_OPENSSL_ERROR_STRING_LENGTH :: nat where "TCN_OPENSSL_ERROR_STRING_LENGTH = 256"

definition getErrorString :: "'s jvm \<Rightarrow> (int \<Rightarrow> byte list) \<Rightarrow> int \<Rightarrow> 's option" where
  "getErrorString env error_string number =
     tcn_new_string env (Some (take (TCN_OPENSSL_ERROR_STRING_LENGTH - 1) (error_string number) @ [0]))"

text \<open>
  The names of the ciphers as Java strings, \<open>None\<close> for one that could not be made, and the
  number of local references that exist at the end of the loop: the strings are not released.
\<close>

fun cipher_loop :: "'s jvm \<Rightarrow> byte list list \<Rightarrow> nat \<Rightarrow> 's option list \<times> nat" where
  "cipher_loop env [] refs = ([], refs)"
| "cipher_loop env (name # names) refs =
     (let c_name = j_new_utf env (c_str name);
          (rest, refs) = cipher_loop env names (if c_name = None then refs else refs + 1)
      in (c_name # rest, refs))"

definition SSL_getCiphers :: "'s jvm \<Rightarrow> bool \<Rightarrow> byte list list \<Rightarrow> 's option list option \<times> nat \<times> string option" where
  "SSL_getCiphers env ssl_null sk =
     (if ssl_null then (None, 0, Some ''ssl is null'')
      else if length sk = 0 then (None, 0, None)
      else (let (names, refs) = cipher_loop env sk 1 in (Some names, refs, None)))"

definition SSLContext_getCiphers ::
  "'s jvm \<Rightarrow> tcn_ssl_ctxt_t \<Rightarrow> byte list list \<Rightarrow> 's option list option \<times> nat \<times> string option" where
  "SSLContext_getCiphers env c sk =
     (if c_ctx c = None then (None, 0, Some ''ssl context is null'')
      else if length sk = 0 then (None, 0, None)
      else (let (names, refs) = cipher_loop env sk 1 in (Some names, refs, None)))"

text \<open>
  \<open>getPeerCertificate\<close>: \<open>cert\<close> is the certificate of the peer, \<open>i2d\<close> its encoding. The
  length of the encoding is not tested, so that no array is made for a negative one, and
  \<open>SetByteArrayRegion\<close> is called for the NULL array. The last result is whether the
  certificate was released.
\<close>

definition getPeerCertificate ::
  "('c \<Rightarrow> byte list option) \<Rightarrow> bool \<Rightarrow> 'c option \<Rightarrow> (byte list option \<times> string option \<times> bool) run" where
  "getPeerCertificate i2d ssl_null cert =
     (if ssl_null then Inr (None, Some ''ssl is null'', False)
      else
        (case cert of
           None \<Rightarrow> Inr (None, None, False)
         | Some x \<Rightarrow> (case i2d x of None \<Rightarrow> Inl Null_Deref | Some bytes \<Rightarrow> Inr (Some bytes, None, True))))"

section \<open>The network side of a connection\<close>

text \<open>
  \<open>makeNetworkBIO\<close>: \<open>pair\<close> is the result of \<open>BIO_new_bio_pair\<close>; the \<open>SSL\<close> owns the
  internal BIO, the caller the network BIO.
\<close>

definition makeNetworkBIO ::
  "bool \<Rightarrow> (ptr \<times> ptr) option \<Rightarrow> ptr option \<times> string option \<times> ptr option" where
  "makeNetworkBIO ssl_null pair =
     (if ssl_null then (None, Some ''ssl is null'', None)
      else
        (case pair of
           None \<Rightarrow> (None, Some ''BIO_new_bio_pair failed'', None)
         | Some (internal_bio, network_bio) \<Rightarrow> (Some network_bio, None, Some internal_bio)))"

text \<open>
  Reads and writes on native buffers: OpenSSL is given the size that Java passed, and reads or
  writes at most that many bytes at the address that Java passed.
\<close>

definition writeToBIO :: "(byte list \<Rightarrow> int \<Rightarrow> int) \<Rightarrow> byte list \<Rightarrow> int \<Rightarrow> int run" where
  "writeToBIO bio_write wbuf wlen = run_bind (rdn wbuf 0 (nat wlen)) (\<lambda>bytes. Inr (bio_write bytes wlen))"

definition readFromBIO :: "(int \<Rightarrow> int \<times> byte list) \<Rightarrow> block \<Rightarrow> int \<Rightarrow> (int \<times> block) run" where
  "readFromBIO bio_read rbuf rlen =
     (let (n, bytes) = bio_read rlen; bytes = take (nat rlen) bytes in
      if bytes = [] then Inr (n, rbuf) else run_bind (wrn_cell rbuf 0 bytes) (\<lambda>rbuf. Inr (n, rbuf)))"

definition writeToSSL :: "(byte list \<Rightarrow> int \<Rightarrow> int) \<Rightarrow> byte list \<Rightarrow> int \<Rightarrow> int run" where
  "writeToSSL ssl_write wbuf wlen = run_bind (rdn wbuf 0 (nat wlen)) (\<lambda>bytes. Inr (ssl_write bytes wlen))"

definition readFromSSL :: "(int \<Rightarrow> int \<times> byte list) \<Rightarrow> block \<Rightarrow> int \<Rightarrow> (int \<times> block) run" where
  "readFromSSL ssl_read rbuf rlen =
     (let (n, bytes) = ssl_read rlen; bytes = take (nat rlen) bytes in
      if bytes = [] then Inr (n, rbuf) else run_bind (wrn_cell rbuf 0 bytes) (\<lambda>rbuf. Inr (n, rbuf)))"

text \<open>The names arrive in the order of OpenSSL, with one local reference for each of them.\<close>

lemma cipher_loop_result:
  "(\<And>n. n \<in> set names \<Longrightarrow> j_new_utf env (c_str n) \<noteq> None) \<Longrightarrow>
   cipher_loop env names refs = (map (\<lambda>n. j_new_utf env (c_str n)) names, refs + length names)"
proof (induction names arbitrary: refs)
  case (Cons n names)
  have "j_new_utf env (c_str n) \<noteq> None" using Cons.prems [of n] by simp
  moreover have "cipher_loop env names (refs + 1) = (map (\<lambda>n. j_new_utf env (c_str n)) names, refs + 1 + length names)"
    using Cons.prems by (intro Cons.IH) auto
  ultimately show ?case by (auto simp: Let_def)
qed simp

end
