(* ===== verification/Tcn_Library.thy ===== *)
theory Tcn_Library
  imports Ssl_Certs Ocsp_Http Interfaces
begin

text \<open>
  The library as a whole: the global pool of \<^verbatim>\<open>native/src/jnilib.c\<close> and
  \<^verbatim>\<open>native/src/pool.c\<close>; the initialisation of the SSL part, its cleanup and the seeding
  of the random number generator in \<^verbatim>\<open>native/src/ssl.c\<close>; the indices of the application
  data of \<^verbatim>\<open>native/src/sslutils.c\<close>.

  Static variables are fields of the state \<open>lib\<close>. A pool is a number that is never used
  again, so that a pointer into a pool is stale when the number is not that of the current
  pool.
\<close>

section \<open>State\<close>

text \<open>
  \<open>l_apr\<close> is the number of calls of \<open>apr_initialize\<close> less that of \<open>apr_terminate\<close>;
  \<open>l_cleanups\<close> counts how often \<open>ssl_init_cleanup\<close> is registered with the global pool,
  \<open>l_class_refs\<close> the global references to the cached classes, \<open>l_bio_methods\<close> the live
  BIO methods.
\<close>

record lib =
  l_pool :: "nat option"
  l_next_pool :: nat
  l_apr :: int
  l_cleanups :: nat
  l_ssl_initialized :: int
  l_bio_methods :: nat
  l_key_log_file :: bool
  l_rand_file :: "(nat \<times> byte list) option"
  l_class_refs :: nat
  l_password_callback :: pass_cb
  l_counter :: "32 word"
  l_idx2 :: int
  l_idx3 :: int
  l_idx4 :: int
  l_ex_calls :: nat

definition lib_start :: lib where
  "lib_start = \<lparr>l_pool = None, l_next_pool = 0, l_apr = 0, l_cleanups = 0, l_ssl_initialized = 0,
     l_bio_methods = 0, l_key_log_file = False, l_rand_file = None, l_class_refs = 0,
     l_password_callback = \<lparr>pw_password = [], pw_prompt_set = False\<rparr>, l_counter = 0, l_idx2 = -1, l_idx3 = -1, l_idx4 = -1, l_ex_calls = 0\<rparr>"

section \<open>The global pool\<close>

text \<open>\<open>pool_ok\<close>: whether \<open>apr_pool_create\<close> succeeds.\<close>

definition Library_initialize :: "bool \<Rightarrow> lib \<Rightarrow> bool \<times> lib" where
  "Library_initialize pool_ok s =
     (if l_pool s = None then
        (let s = s\<lparr>l_apr := l_apr s + 1\<rparr> in
         if \<not> pool_ok then (False, s)
         else (True, s\<lparr>l_pool := Some (l_next_pool s), l_next_pool := l_next_pool s + 1, l_cleanups := 0\<rparr>))
      else (True, s))"

definition tcn_get_global_pool :: "bool \<Rightarrow> lib \<Rightarrow> nat option \<times> lib" where
  "tcn_get_global_pool pool_ok s =
     (if l_pool s = None then
        (if \<not> pool_ok then (None, s)
         else (Some (l_next_pool s),
               s\<lparr>l_pool := Some (l_next_pool s), l_next_pool := l_next_pool s + 1, l_cleanups := 0\<rparr>))
      else (l_pool s, s))"

text \<open>\<open>BIO_meth_free\<close> on methods that were freed before is a fault.\<close>

definition free_bio_methods :: "lib \<Rightarrow> lib run" where
  "free_bio_methods s =
     (if l_bio_methods s = 0 then Inl Bad_Free else Inr (s\<lparr>l_bio_methods := l_bio_methods s - 1\<rparr>))"

definition init_bio_methods :: "lib \<Rightarrow> lib" where
  "init_bio_methods s = s\<lparr>l_bio_methods := l_bio_methods s + 1\<rparr>"

definition ssl_init_cleanup :: "lib \<Rightarrow> lib run" where
  "ssl_init_cleanup s =
     (if l_ssl_initialized s = 0 then Inr s
      else run_bind (free_bio_methods (s\<lparr>l_ssl_initialized := 0\<rparr>)) (\<lambda>s.
        Inr (if l_key_log_file s then s\<lparr>l_key_log_file := False\<rparr> else s)))"

text \<open>\<open>apr_pool_destroy\<close> on the global pool runs the cleanups registered there.\<close>

primrec run_cleanups :: "nat \<Rightarrow> lib \<Rightarrow> lib run" where
  "run_cleanups 0 s = Inr s"
| "run_cleanups (Suc n) s = run_bind (ssl_init_cleanup s) (run_cleanups n)"

definition Library_terminate :: "lib \<Rightarrow> lib run" where
  "Library_terminate s =
     (case l_pool s of
        None \<Rightarrow> Inr s
      | Some p \<Rightarrow>
          run_bind (run_cleanups (l_cleanups s) (s\<lparr>l_pool := None, l_cleanups := 0\<rparr>)) (\<lambda>s.
          Inr (s\<lparr>l_apr := l_apr s - 1\<rparr>)))"

text \<open>
  \<open>Pool.create\<close>: the parent that \<open>apr_pool_create\<close> is given, and its result, 0 with an
  exception when it fails. \<open>Pool.destroy\<close>: whether the pool is destroyed.
\<close>

definition Pool_create :: "(nat option \<Rightarrow> nat option) \<Rightarrow> nat option \<Rightarrow> lib \<Rightarrow> nat option \<times> bool" where
  "Pool_create pool_create parent s =
     (let p = (if parent = None then l_pool s else parent) in
      case pool_create p of None \<Rightarrow> (None, True) | Some n \<Rightarrow> (Some n, False))"

definition Pool_destroy :: "lib \<Rightarrow> bool" where
  "Pool_destroy s \<longleftrightarrow> l_pool s \<noteq> None"

text \<open>The version numbers of \<^verbatim>\<open>tcn_version.h\<close> and those that APR reports.\<close>

definition TCN_MAJOR_VERSION :: int where "TCN_MAJOR_VERSION = 2"
definition TCN_MINOR_VERSION :: int where "TCN_MINOR_VERSION = 0"
definition TCN_PATCH_VERSION :: int where "TCN_PATCH_VERSION = 16"
definition TCN_IS_DEV_VERSION :: int where "TCN_IS_DEV_VERSION = 1"

record apr_version_t =
  v_major :: int
  v_minor :: int
  v_patch :: int
  v_is_dev :: int

definition Library_version :: "apr_version_t \<Rightarrow> int \<Rightarrow> int" where
  "Library_version apv wh =
     (if wh = 1 then TCN_MAJOR_VERSION
      else if wh = 2 then TCN_MINOR_VERSION
      else if wh = 3 then TCN_PATCH_VERSION
      else if wh = 4 then TCN_IS_DEV_VERSION
      else if wh = 0x11 then v_major apv
      else if wh = 0x12 then v_minor apv
      else if wh = 0x13 then v_patch apv
      else if wh = 0x14 then v_is_dev apv
      else 0)"

text \<open>
  What APR was built with: \<open>Library.has\<close> numbers the features, \<open>Library.size\<close> the limits.
\<close>

datatype apr_feature =
    APR_HAVE_IPV6 | APR_HAS_SHARED_MEMORY | APR_HAS_THREADS | APR_HAS_SENDFILE | APR_HAS_MMAP
  | APR_HAS_FORK | APR_HAS_RANDOM | APR_HAS_OTHER_CHILD | APR_HAS_DSO | APR_HAS_SO_ACCEPTFILTER
  | APR_HAS_UNICODE_FS | APR_HAS_PROC_INVOKED | APR_HAS_USER | APR_HAS_LARGE_FILES
  | APR_HAS_XTHREAD_FILES | APR_HAS_OS_UUID | APR_IS_BIGENDIAN | APR_FILES_AS_SOCKETS
  | APR_CHARSET_EBCDIC | APR_TCP_NODELAY_INHERITED | APR_O_NONBLOCK_INHERITED
  | APR_POLLSET_WAKEABLE | APR_UNIX

definition features :: "apr_feature list" where
  "features =
     [APR_HAVE_IPV6, APR_HAS_SHARED_MEMORY, APR_HAS_THREADS, APR_HAS_SENDFILE, APR_HAS_MMAP,
      APR_HAS_FORK, APR_HAS_RANDOM, APR_HAS_OTHER_CHILD, APR_HAS_DSO, APR_HAS_SO_ACCEPTFILTER,
      APR_HAS_UNICODE_FS, APR_HAS_PROC_INVOKED, APR_HAS_USER, APR_HAS_LARGE_FILES,
      APR_HAS_XTHREAD_FILES, APR_HAS_OS_UUID, APR_IS_BIGENDIAN, APR_FILES_AS_SOCKETS,
      APR_CHARSET_EBCDIC, APR_TCP_NODELAY_INHERITED, APR_O_NONBLOCK_INHERITED,
      APR_POLLSET_WAKEABLE, APR_UNIX]"

definition Library_has :: "(apr_feature \<Rightarrow> bool) \<Rightarrow> int \<Rightarrow> bool" where
  "Library_has built wh \<longleftrightarrow> 0 \<le> wh \<and> nat wh < length features \<and> built (features ! nat wh)"

record apr_limits =
  z_voidp :: int
  z_path_max :: int
  z_max_host_len :: int
  z_max_iovec :: int
  z_max_secs_to_linger :: int
  z_mmap_threshold :: int
  z_mmap_limit :: int

definition Library_size :: "apr_limits \<Rightarrow> int \<Rightarrow> int" where
  "Library_size z wh =
     (if wh = 1 then z_voidp z
      else if wh = 2 then z_path_max z
      else if wh = 3 then z_max_host_len z
      else if wh = 4 then z_max_iovec z
      else if wh = 5 then z_max_secs_to_linger z
      else if wh = 6 then z_mmap_threshold z
      else if wh = 7 then z_mmap_limit z
      else 0)"

section \<open>Loading\<close>

text \<open>
  \<open>JNI_OnLoad\<close>: \<open>JNI_ERR\<close> is -1, \<open>JNI_VERSION_1_4\<close> \<open>0x10004\<close>. What the JVM answers are
  arguments: whether it knows the version, finds the class, and the two methods. The last
  result is whether the global reference to \<open>java.lang.String\<close> was made.
\<close>

definition JNI_ERR :: int where "JNI_ERR = -1"
definition JNI_VERSION_1_4 :: int where "JNI_VERSION_1_4 = 0x10004"

definition JNI_OnLoad :: "bool \<Rightarrow> apr_version_t \<Rightarrow> bool \<Rightarrow> bool \<Rightarrow> bool \<Rightarrow> int \<times> string option \<times> bool" where
  "JNI_OnLoad env_ok apv string_class init getBytes =
     (if \<not> env_ok then (JNI_ERR, None, False)
      else
        (let apvn = v_major apv * 1000 + v_minor apv * 100 + v_patch apv in
         if apvn < 1700 then (JNI_ERR, Some ''Unsupported APR version'', False)
         else if \<not> string_class then (JNI_ERR, None, False)
         else if \<not> init then (JNI_ERR, None, True)
         else if \<not> getBytes then (JNI_ERR, None, True)
         else (JNI_VERSION_1_4, None, True)))"

text \<open>\<open>JNI_OK\<close> is 0; the JVM answers 0 when it has an environment for the thread.\<close>

definition tcn_get_java_env :: "int \<Rightarrow> int" where
  "tcn_get_java_env get_env = (if get_env \<noteq> 0 then JNI_ERR else 0)"

text \<open>\<open>JNI_OnUnload\<close>: whether the class is released and \<open>apr_terminate\<close> called.\<close>

definition JNI_OnUnload :: "bool \<Rightarrow> lib \<Rightarrow> bool \<times> lib" where
  "JNI_OnUnload env_ok s =
     (if \<not> env_ok then (False, s)
      else if l_pool s \<noteq> None then (True, s\<lparr>l_apr := l_apr s - 1\<rparr>)
      else (False, s))"

section \<open>Random numbers\<close>

text \<open>
  What OpenSSL offers for seeding: the default file name, the entropy gathering daemon (\<open>None\<close>
  when it is compiled out) and the loading of a file.
\<close>

record rand_env =
  q_file_name :: "byte list option"
  q_egd :: "(byte list \<Rightarrow> int) option"
  q_load_file :: "byte list \<Rightarrow> int"

definition ssl_rand_load_file :: "rand_env \<Rightarrow> byte list option \<Rightarrow> byte list option \<Rightarrow> int" where
  "ssl_rand_load_file env ssl_global_rand_file f =
     (let f = (if f = None then ssl_global_rand_file else f) in
      if \<exists>x. f = Some x \<and> strcmp x (ascii ''builtin'') = 0 then -1
      else
        (let f = (if f = None then q_file_name env else f) in
         case f of
           None \<Rightarrow> -1
         | Some x \<Rightarrow>
             if take 4 x = ascii ''egd:'' then
               (case q_egd env of
                  None \<Rightarrow> -1
                | Some egd \<Rightarrow> if egd (drop 4 x) > 0 then egd (drop 4 x) else -1)
             else if q_load_file env x > 0 then q_load_file env x else -1))"

text \<open>
  \<open>ssl_rand_choosenum\<close>: \<open>v\<close> is what \<open>atoi\<close> makes of the printed floating-point number.
\<close>

definition ssl_rand_choosenum :: "int \<Rightarrow> int \<Rightarrow> int \<Rightarrow> int" where
  "ssl_rand_choosenum v l h =
     (let i = v + 1;
          i = (if i < l then l else i)
      in (if i > h then h else i))"

datatype seed_call =
    Random_Bytes nat            \<comment> \<open>\<open>apr_generate_random_bytes\<close> into \<open>stackdata\<close>\<close>
  | Seed_Stack nat nat          \<comment> \<open>\<open>RAND_seed\<close> from \<open>stackdata\<close>: offset and length\<close>
  | Seed_Struct "32 word"       \<comment> \<open>\<open>RAND_seed\<close> from \<open>_ssl_seed\<close> with this counter\<close>

text \<open>
  \<open>SSL_rand_seed\<close> on the 256 bytes of \<open>stackdata\<close>. Their content does not matter: after the
  first call they are whatever the stack holds, which is intended. \<open>global\<close> is
  \<open>ssl_global_rand_file\<close>, which is read only when no file is given.
\<close>

definition SSL_rand_seed ::
  "rand_env \<Rightarrow> int \<Rightarrow> byte list option \<Rightarrow> byte list option \<Rightarrow> 32 word \<Rightarrow> (32 word \<times> seed_call list) run" where
  "SSL_rand_seed env v global f counter =
     (if ssl_rand_load_file env global f < 0 then
        (let calls = (if counter = 0 then [Random_Bytes 256, Seed_Stack 0 128] else []);
             counter = counter + 1;
             n = ssl_rand_choosenum v 0 (256 - 128 - 1)
         in if n < 0 \<or> 256 < n + 128 then Inl Out_Of_Bounds
            else Inr (counter, calls @ [Seed_Struct counter, Seed_Stack (nat n) 128]))
      else Inr (counter, []))"

definition randSet :: "byte list option \<Rightarrow> lib \<Rightarrow> lib run" where
  "randSet f s =
     (case f of
        None \<Rightarrow> Inr s
      | Some x \<Rightarrow>
          (case l_pool s of
             None \<Rightarrow> Inl Null_Deref
           | Some p \<Rightarrow> Inr (s\<lparr>l_rand_file := Some (p, x)\<rparr>)))"

text \<open>The global file name when it is read: a string in a pool that was destroyed is a fault.\<close>

definition read_rand_file :: "lib \<Rightarrow> byte list option run" where
  "read_rand_file s =
     (case l_rand_file s of
        None \<Rightarrow> Inr None
      | Some (p, x) \<Rightarrow> if l_pool s = Some p then Inr (Some x) else Inl Use_After_Free)"

section \<open>Application data\<close>

text \<open>
  \<open>res k\<close> is what the \<open>k\<close>-th call of \<open>SSL_get_ex_new_index\<close> in the process returns, negative
  when it fails. The loop of two calls keeps the second index.
\<close>

definition SSL_init_app_data_idx :: "(nat \<Rightarrow> int) \<Rightarrow> lib \<Rightarrow> lib" where
  "SSL_init_app_data_idx res s =
     (if l_idx2 s > -1 then s
      else
        (let s = s\<lparr>l_idx2 := res (l_ex_calls s + 1), l_ex_calls := l_ex_calls s + 2\<rparr> in
         if l_idx3 s > -1 then s
         else
           (let s = s\<lparr>l_idx3 := res (l_ex_calls s), l_ex_calls := l_ex_calls s + 1\<rparr> in
            if l_idx4 s > -1 then s
            else s\<lparr>l_idx4 := res (l_ex_calls s), l_ex_calls := l_ex_calls s + 1\<rparr>)))"

section \<open>Initialisation of the SSL part\<close>

text \<open>
  What \<open>SSL.initialize\<close> meets: the random number functions, the new indices, and whether the
  environment names a key log file that can be opened, made unbuffered and wrapped in a BIO.
\<close>

record init_env =
  i_rand :: rand_env
  i_choose :: int
  i_ex_new :: "nat \<Rightarrow> int"
  i_key_log :: bool

definition APR_EINVAL :: int where "APR_EINVAL = 22"

definition SSL_initialize :: "init_env \<Rightarrow> lib \<Rightarrow> (int \<times> lib) run" where
  "SSL_initialize env s =
     (if l_pool s = None then Inr (APR_EINVAL, s)
      else if l_ssl_initialized s \<noteq> 0 then
        (if l_ssl_initialized s = 2 ^ 31 - 1 then Inl Signed_Overflow
         else Inr (0, s\<lparr>l_ssl_initialized := l_ssl_initialized s + 1\<rparr>))
      else
        (let s = s\<lparr>l_ssl_initialized := 1, l_password_callback := \<lparr>pw_password = [], pw_prompt_set = False\<rparr>\<rparr> in
         run_bind (read_rand_file s) (\<lambda>global.
         run_bind (SSL_rand_seed (i_rand env) (i_choose env) global None (l_counter s)) (\<lambda>(counter, calls).
         (let s = init_bio_methods (SSL_init_app_data_idx (i_ex_new env) (s\<lparr>l_counter := counter\<rparr>));
              s = s\<lparr>l_cleanups := l_cleanups s + 1, l_class_refs := l_class_refs s + 2\<rparr>
          in Inr (0, if \<not> l_key_log_file s \<and> i_key_log env then s\<lparr>l_key_log_file := True\<rparr> else s))))))"

definition ssl_keylog_callback :: "bool \<Rightarrow> byte list option \<Rightarrow> byte list list" where
  "ssl_keylog_callback key_log_file line =
     (case line of
        None \<Rightarrow> []
      | Some l \<Rightarrow> if key_log_file \<and> l \<noteq> [] then [l, [10]] else [])"

text \<open>\<open>fipsModeGet\<close>: the name of the provider of SHA-512.\<close>

definition fipsModeGet :: "byte list \<Rightarrow> int" where
  "fipsModeGet name = (if strcmp (ascii ''fips'') name \<noteq> 0 then 0 else 1)"

definition fipsModeSet :: "int \<Rightarrow> int \<times> string" where
  "fipsModeSet mode = (0, ''fipsModeSet is not supported in Tomcat Native 2.x onwards.'')"

section \<open>The library in use\<close>

text \<open>
  The operations in any order. \<open>Seed\<close> is the seeding of \<open>newSSL\<close>, with the file of the
  context.
\<close>

definition seed_connection :: "rand_env \<Rightarrow> int \<Rightarrow> byte list option \<Rightarrow> lib \<Rightarrow> lib run" where
  "seed_connection env v f s =
     run_bind (if f = None then read_rand_file s else Inr None) (\<lambda>global.
     run_bind (SSL_rand_seed env v global f (l_counter s)) (\<lambda>(counter, calls). Inr (s\<lparr>l_counter := counter\<rparr>)))"

datatype lib_op =
    Lib_Init bool
  | Lib_Term
  | Ssl_Init init_env
  | Rand_Set "byte list option"
  | Seed rand_env int "byte list option"

fun lib_exec :: "lib_op \<Rightarrow> lib \<Rightarrow> lib run" where
  "lib_exec (Lib_Init pool_ok) s = Inr (snd (Library_initialize pool_ok s))"
| "lib_exec Lib_Term s = Library_terminate s"
| "lib_exec (Ssl_Init env) s = run_bind (SSL_initialize env s) (\<lambda>(rv, s). Inr s)"
| "lib_exec (Rand_Set f) s = randSet f s"
| "lib_exec (Seed env v f) s = seed_connection env v f s"

definition lib_run :: "lib_op list \<Rightarrow> lib \<Rightarrow> lib run" where
  "lib_run = run_ops lib_exec"

lemma choosenum_bounds: "l \<le> h \<Longrightarrow> l \<le> ssl_rand_choosenum v l h \<and> ssl_rand_choosenum v l h \<le> h"
  by (simp add: ssl_rand_choosenum_def Let_def)

text \<open>Seeding stays within \<open>stackdata\<close>.\<close>

lemma SSL_rand_seed_safe: "ensures (SSL_rand_seed env v global f counter) (\<lambda>_. True)"
  using choosenum_bounds [of 0 127 v] by (auto simp: SSL_rand_seed_def Let_def)

text \<open>
  The invariant: the SSL part is initialised exactly when its BIO methods exist and its cleanup
  is registered, both once, and only while there is a global pool; a key log file is open only
  then.
\<close>

definition lib_ok :: "lib \<Rightarrow> bool" where
  "lib_ok s \<longleftrightarrow> 0 \<le> l_ssl_initialized s \<and>
     l_bio_methods s = (if l_ssl_initialized s = 0 then 0 else 1) \<and>
     l_cleanups s = (if l_ssl_initialized s = 0 then 0 else 1) \<and>
     (l_ssl_initialized s \<noteq> 0 \<longrightarrow> l_pool s \<noteq> None) \<and>
     (l_key_log_file s \<longrightarrow> l_ssl_initialized s \<noteq> 0) \<and>
     (if l_pool s = None then 0 else 1) \<le> l_apr s"

lemma lib_ok_start: "lib_ok lib_start"
  by (simp add: lib_ok_def lib_start_def)

lemma ssl_init_cleanup_ok:
  "lib_ok s \<Longrightarrow> l_pool s = Some p \<Longrightarrow>
   ensures (Library_terminate s) (\<lambda>s'. lib_ok s' \<and> l_ssl_initialized s' = 0 \<and> l_pool s' = None \<and>
     l_rand_file s' = l_rand_file s \<and> l_apr s' = l_apr s - 1 \<and> l_next_pool s' = l_next_pool s)"
  by (cases "l_ssl_initialized s = 0"; cases "l_key_log_file s")
    (auto simp: lib_ok_def Library_terminate_def ssl_init_cleanup_def free_bio_methods_def)

definition initialised_lib :: "init_env \<Rightarrow> 32 word \<Rightarrow> lib \<Rightarrow> lib" where
  "initialised_lib env counter s =
     (let s = init_bio_methods (SSL_init_app_data_idx (i_ex_new env)
          (s\<lparr>l_ssl_initialized := 1, l_password_callback := \<lparr>pw_password = [], pw_prompt_set = False\<rparr>,
             l_counter := counter\<rparr>));
          s = s\<lparr>l_cleanups := l_cleanups s + 1, l_class_refs := l_class_refs s + 2\<rparr>
      in if \<not> l_key_log_file s \<and> i_key_log env then s\<lparr>l_key_log_file := True\<rparr> else s)"

lemma app_data_idx_frame [simp]:
  "l_pool (SSL_init_app_data_idx res s) = l_pool s"
  "l_apr (SSL_init_app_data_idx res s) = l_apr s"
  "l_ssl_initialized (SSL_init_app_data_idx res s) = l_ssl_initialized s"
  "l_bio_methods (SSL_init_app_data_idx res s) = l_bio_methods s"
  "l_cleanups (SSL_init_app_data_idx res s) = l_cleanups s"
  "l_key_log_file (SSL_init_app_data_idx res s) = l_key_log_file s"
  "l_rand_file (SSL_init_app_data_idx res s) = l_rand_file s"
  "l_next_pool (SSL_init_app_data_idx res s) = l_next_pool s"
  by (simp_all add: SSL_init_app_data_idx_def Let_def)

lemma initialised_lib_frame [simp]:
  "l_pool (initialised_lib env counter s) = l_pool s"
  "l_apr (initialised_lib env counter s) = l_apr s"
  "l_ssl_initialized (initialised_lib env counter s) = 1"
  "l_bio_methods (initialised_lib env counter s) = l_bio_methods s + 1"
  "l_cleanups (initialised_lib env counter s) = l_cleanups s + 1"
  "l_rand_file (initialised_lib env counter s) = l_rand_file s"
  "l_next_pool (initialised_lib env counter s) = l_next_pool s"
  by (simp_all add: initialised_lib_def init_bio_methods_def Let_def)

lemma read_rand_file_cong:
  "l_rand_file s' = l_rand_file s \<Longrightarrow> l_pool s' = l_pool s \<Longrightarrow> read_rand_file s' = read_rand_file s"
  by (simp add: read_rand_file_def split: option.split)

text \<open>The first call of \<open>SSL.initialize\<close>, and the later ones, which only count.\<close>

lemma SSL_initialize_first:
  assumes "l_pool s = Some p" and "l_ssl_initialized s = 0" and "read_rand_file s = Inr global"
  shows "ensures (SSL_initialize env s) (\<lambda>(rv, s'). rv = 0 \<and> (\<exists>counter. s' = initialised_lib env counter s))"
proof -
  let ?s = "s\<lparr>l_ssl_initialized := 1, l_password_callback := \<lparr>pw_password = [], pw_prompt_set = False\<rparr>\<rparr>"
  have g: "read_rand_file ?s = Inr global"
    using assms(3) by (simp add: read_rand_file_cong [of ?s s])
  obtain counter calls where
    c: "SSL_rand_seed (i_rand env) (i_choose env) global None (l_counter s) = Inr (counter, calls)"
    using SSL_rand_seed_safe [of "i_rand env" "i_choose env" global None "l_counter s"] by (auto simp: ensures_def)
  show ?thesis
    using assms(1,2) by (auto simp: SSL_initialize_def g c initialised_lib_def Let_def)
qed

lemma initialised_lib_ok:
  "lib_ok s \<Longrightarrow> l_pool s \<noteq> None \<Longrightarrow> l_ssl_initialized s = 0 \<Longrightarrow> lib_ok (initialised_lib env counter s)"
  unfolding lib_ok_def by simp

lemma SSL_initialize_ok:
  assumes ok: "lib_ok s" and r: "read_rand_file s = Inr global" and n: "l_ssl_initialized s < 2 ^ 31 - 1"
  shows "ensures (SSL_initialize env s) (\<lambda>(rv, s'). lib_ok s' \<and> l_rand_file s' = l_rand_file s \<and>
    l_pool s' = l_pool s \<and> l_apr s' = l_apr s \<and> l_ssl_initialized s' \<le> l_ssl_initialized s + 1)"
proof (cases "l_pool s")
  case None
  then show ?thesis using ok by (simp add: SSL_initialize_def)
next
  case (Some p)
  show ?thesis
  proof (cases "l_ssl_initialized s = 0")
    case True
    have "lib_ok (initialised_lib env counter s)" for counter
      using initialised_lib_ok [OF ok _ True] Some by simp
    then show ?thesis
      using True by (intro ensures_mono [OF SSL_initialize_first [OF Some True r]]) auto
  next
    case False
    then show ?thesis
      using ok n Some by (auto simp: SSL_initialize_def lib_ok_def)
  qed
qed

text \<open>One operation, as long as no file of random bytes was named.\<close>

definition quiet :: "lib_op \<Rightarrow> bool" where
  "quiet op \<longleftrightarrow> (\<forall>x. op \<noteq> Rand_Set (Some x))"

definition apr_exact :: "lib \<Rightarrow> bool" where
  "apr_exact s \<longleftrightarrow> l_apr s = (if l_pool s = None then 0 else 1)"

lemma lib_exec_ok:
  assumes ok: "lib_ok s" and q: "quiet op" and r: "l_rand_file s = None" and n: "l_ssl_initialized s < 2 ^ 31 - 1"
  shows "ensures (lib_exec op s) (\<lambda>s'. lib_ok s' \<and> l_rand_file s' = None \<and>
    l_ssl_initialized s' \<le> l_ssl_initialized s + 1 \<and> (op \<noteq> Lib_Init False \<and> apr_exact s \<longrightarrow> apr_exact s'))"
proof (cases op)
  case (Lib_Init pool_ok)
  show ?thesis
  proof (cases "l_pool s")
    case None
    then show ?thesis
      using ok r unfolding Lib_Init lib_exec.simps ensures_simps
      by (cases pool_ok) (auto simp: Library_initialize_def lib_ok_def apr_exact_def)
  next
    case (Some p)
    then show ?thesis
      using ok r unfolding Lib_Init lib_exec.simps ensures_simps
      by (simp add: Library_initialize_def apr_exact_def)
  qed
next
  case Lib_Term
  show ?thesis
  proof (cases "l_pool s")
    case None
    then show ?thesis using ok r Lib_Term by (simp add: Library_terminate_def)
  next
    case (Some p)
    have "0 \<le> l_ssl_initialized s" using ok by (simp add: lib_ok_def)
    with Some r Lib_Term show ?thesis
      unfolding Lib_Term lib_exec.simps
      by (intro ensures_mono [OF ssl_init_cleanup_ok [OF ok Some]]) (auto simp: apr_exact_def)
  qed
next
  case (Ssl_Init env)
  have "read_rand_file s = Inr None" using r by (simp add: read_rand_file_def)
  from SSL_initialize_ok [OF ok this n, of env] show ?thesis
    unfolding Ssl_Init lib_exec.simps ensures_simps
    by (rule ensures_mono) (use r in \<open>auto simp: apr_exact_def\<close>)
next
  case (Rand_Set f)
  then show ?thesis using q ok r by (cases f) (auto simp: quiet_def randSet_def)
next
  case (Seed env v f)
  obtain counter calls where c: "SSL_rand_seed env v None f (l_counter s) = Inr (counter, calls)"
    using SSL_rand_seed_safe [of env v None f "l_counter s"] by (auto simp: ensures_def)
  have "(if f = None then read_rand_file s else Inr None) = Inr None"
    using r by (simp add: read_rand_file_def)
  then have "lib_exec op s = Inr (s\<lparr>l_counter := counter\<rparr>)"
    by (simp add: Seed seed_connection_def c)
  then show ?thesis
    using ok r by (simp add: lib_ok_def apr_exact_def)
qed

text \<open>
  The library as a machine: \<open>n\<close> more operations are possible before the counter of
  \<open>SSL.initialize\<close> overflows, and when no pool failed so far (\<open>exact\<close>) the calls of APR
  are balanced.
\<close>

definition lib_inv :: "bool \<Rightarrow> nat \<Rightarrow> lib \<Rightarrow> bool" where
  "lib_inv exact n s \<longleftrightarrow> lib_ok s \<and> l_rand_file s = None \<and> l_ssl_initialized s + int n \<le> 2 ^ 31 - 1 \<and>
     (exact \<longrightarrow> apr_exact s)"

interpretation lib: machine lib_exec "lib_inv exact" "\<lambda>op. quiet op \<and> (exact \<longrightarrow> op \<noteq> Lib_Init False)" for exact
proof
  fix n s op
  assume "lib_inv exact (Suc n) s" and g: "quiet op \<and> (exact \<longrightarrow> op \<noteq> Lib_Init False)"
  then have s: "lib_ok s" "l_rand_file s = None" "l_ssl_initialized s + int (Suc n) \<le> 2 ^ 31 - 1" "exact \<Longrightarrow> apr_exact s"
    unfolding lib_inv_def by blast+
  have "l_ssl_initialized s < 2 ^ 31 - 1" using s(3) by linarith
  from lib_exec_ok [OF s(1) conjunct1 [OF g] s(2) this] show "ensures (lib_exec op s) (lib_inv exact n)"
  proof (rule ensures_mono)
    fix s'
    assume a: "lib_ok s' \<and> l_rand_file s' = None \<and> l_ssl_initialized s' \<le> l_ssl_initialized s + 1 \<and>
      (op \<noteq> Lib_Init False \<and> apr_exact s \<longrightarrow> apr_exact s')"
    then have "l_ssl_initialized s' + int n \<le> 2 ^ 31 - 1" using s(3) by linarith
    moreover have "exact \<longrightarrow> apr_exact s'" using a g s(4) by blast
    ultimately show "lib_inv exact n s'" using a unfolding lib_inv_def by blast
  qed
qed

section \<open>Access to application data\<close>

text \<open>
  \<open>SSL_get_ex_data\<close> and \<open>SSL_set_ex_data\<close> of OpenSSL are the arguments \<open>get_ex\<close> and
  \<open>set_ex\<close>.
\<close>

definition SSL_get_app_data2 :: "('d \<Rightarrow> int \<Rightarrow> 'v) \<Rightarrow> lib \<Rightarrow> 'd \<Rightarrow> 'v" where
  "SSL_get_app_data2 get_ex s ssl = get_ex ssl (l_idx2 s)"

definition SSL_set_app_data2 :: "('d \<Rightarrow> int \<Rightarrow> 'v \<Rightarrow> 'd) \<Rightarrow> lib \<Rightarrow> 'd \<Rightarrow> 'v \<Rightarrow> 'd" where
  "SSL_set_app_data2 set_ex s ssl arg = set_ex ssl (l_idx2 s) arg"

definition SSL_get_app_data3 :: "('d \<Rightarrow> int \<Rightarrow> 'v) \<Rightarrow> lib \<Rightarrow> 'd \<Rightarrow> 'v" where
  "SSL_get_app_data3 get_ex s ssl = get_ex ssl (l_idx3 s)"

definition SSL_set_app_data3 :: "('d \<Rightarrow> int \<Rightarrow> 'v \<Rightarrow> 'd) \<Rightarrow> lib \<Rightarrow> 'd \<Rightarrow> 'v \<Rightarrow> 'd" where
  "SSL_set_app_data3 set_ex s ssl arg = set_ex ssl (l_idx3 s) arg"

definition SSL_get_app_data4 :: "('d \<Rightarrow> int \<Rightarrow> 'v) \<Rightarrow> lib \<Rightarrow> 'd \<Rightarrow> 'v" where
  "SSL_get_app_data4 get_ex s ssl = get_ex ssl (l_idx4 s)"

definition SSL_set_app_data4 :: "('d \<Rightarrow> int \<Rightarrow> 'v \<Rightarrow> 'd) \<Rightarrow> lib \<Rightarrow> 'd \<Rightarrow> 'v \<Rightarrow> 'd" where
  "SSL_set_app_data4 set_ex s ssl arg = set_ex ssl (l_idx4 s) arg"

lemmas app_data_defs =
  SSL_get_app_data2_def SSL_set_app_data2_def SSL_get_app_data3_def SSL_set_app_data3_def
  SSL_get_app_data4_def SSL_set_app_data4_def

text \<open>
  What OpenSSL documents: data is stored per index, and every successful call of
  \<open>SSL_get_ex_new_index\<close> returns a new index.
\<close>

definition ex_data_contract :: "('d \<Rightarrow> int \<Rightarrow> 'v) \<Rightarrow> ('d \<Rightarrow> int \<Rightarrow> 'v \<Rightarrow> 'd) \<Rightarrow> bool" where
  "ex_data_contract get_ex set_ex \<longleftrightarrow>
     (\<forall>d i v j. 0 \<le> i \<longrightarrow> get_ex (set_ex d i v) j = (if j = i then v else get_ex d j))"

definition new_indices :: "(nat \<Rightarrow> int) \<Rightarrow> bool" where
  "new_indices res \<longleftrightarrow> (\<forall>i j. 0 \<le> res i \<and> res i = res j \<longrightarrow> i = j)"

definition idx_distinct :: "lib \<Rightarrow> bool" where
  "idx_distinct s \<longleftrightarrow> (0 \<le> l_idx2 s \<longrightarrow> l_idx2 s \<noteq> l_idx3 s \<and> l_idx2 s \<noteq> l_idx4 s) \<and>
     (0 \<le> l_idx3 s \<longrightarrow> l_idx3 s \<noteq> l_idx4 s)"

definition idx_origin :: "(nat \<Rightarrow> int) \<Rightarrow> lib \<Rightarrow> bool" where
  "idx_origin res s \<longleftrightarrow> (\<forall>i \<in> {l_idx2 s, l_idx3 s, l_idx4 s}. 0 \<le> i \<longrightarrow> (\<exists>k < l_ex_calls s. i = res k))"

lemma new_index_fresh:
  assumes "new_indices res" and "0 \<le> i" and "\<exists>k < n. i = res k" and "n \<le> m"
  shows "res m \<noteq> i"
  using assms unfolding new_indices_def by (metis not_less)

lemma idx_step:
  assumes "new_indices res" and "idx_distinct s" and "idx_origin res s"
  shows "idx_distinct (SSL_init_app_data_idx res s) \<and> idx_origin res (SSL_init_app_data_idx res s)"
proof -
  have ne: "0 \<le> res i \<Longrightarrow> i \<noteq> j \<Longrightarrow> res i \<noteq> res j" for i j
    using assms(1) unfolding new_indices_def by blast
  have old: "\<And>i m. i \<in> {l_idx2 s, l_idx3 s, l_idx4 s} \<Longrightarrow> 0 \<le> i \<Longrightarrow> l_ex_calls s \<le> m \<Longrightarrow> res m \<noteq> i"
    using assms(3) new_index_fresh [OF assms(1)] unfolding idx_origin_def by blast
  have kept: "\<And>i m. i \<in> {l_idx2 s, l_idx3 s, l_idx4 s} \<Longrightarrow> 0 \<le> i \<Longrightarrow> l_ex_calls s \<le> m \<Longrightarrow> \<exists>k < m. i = res k"
    using assms(3) unfolding idx_origin_def by (meson less_le_trans)
  let ?n = "l_ex_calls s"
  show ?thesis
  proof (cases "l_idx2 s > -1")
    case True
    then show ?thesis using assms by (simp add: SSL_init_app_data_idx_def)
  next
    case False
    have e: "\<exists>k < ?n + 2. res (?n + 1) = res k" "\<exists>k < ?n + 3. res (?n + 1) = res k"
      "\<exists>k < ?n + 3. res (?n + 2) = res k" "\<exists>k < ?n + 4. res (?n + 1) = res k"
      "\<exists>k < ?n + 4. res (?n + 2) = res k" "\<exists>k < ?n + 4. res (?n + 3) = res k"
      by (rule exI [of _ "?n + 1"] exI [of _ "?n + 2"] exI [of _ "?n + 3"], simp)+
    show ?thesis
      using False assms(2) old [of "l_idx3 s"] old [of "l_idx4 s"] kept [of "l_idx3 s"] kept [of "l_idx4 s"]
        ne [of "?n + 1" "?n + 2"] ne [of "?n + 1" "?n + 3"] ne [of "?n + 2" "?n + 3"] e
      by (auto simp: SSL_init_app_data_idx_def idx_distinct_def idx_origin_def Let_def numeral_eq_Suc)
  qed
qed

section \<open>Properties\<close>

text \<open>
  C20: whatever order the library is initialised and terminated in, the SSL part included, and
  connections are seeded in between, no BIO method is freed twice, the cleanup is registered
  once, the SSL part is initialised only while there is a global pool, seeding stays within its
  buffer; and unless a pool could not be created, \<open>apr_initialize\<close> has been called exactly once
  more than \<open>apr_terminate\<close> while there is a pool, and equally often otherwise.
\<close>

theorem library_lifecycle:
  assumes "\<forall>op \<in> set ops. quiet op" and "length ops < 2 ^ 31"
  shows "ensures (lib_run ops lib_start) (\<lambda>s. lib_ok s \<and> (Lib_Init False \<notin> set ops \<longrightarrow> apr_exact s))"
proof -
  let ?exact = "Lib_Init False \<notin> set ops"
  have "lib_inv ?exact (length ops + 0) lib_start"
    using assms(2) lib_ok_start by (simp add: lib_inv_def lib_start_def apr_exact_def)
  then have "ensures (lib_run ops lib_start) (lib_inv ?exact 0)"
    unfolding lib_run_def by (rule lib.run) (use assms(1) in auto)
  then show ?thesis
    by (rule ensures_mono) (auto simp: lib_inv_def)
qed

definition sample_init_env :: init_env where
  "sample_init_env = \<lparr>i_rand = \<lparr>q_file_name = None, q_egd = None, q_load_file = \<lambda>_. 0\<rparr>, i_choose = 5,
     i_ex_new = int, i_key_log = True\<rparr>"

theorem library_lifecycle_witness:
  "\<exists>s. lib_run [Lib_Init True, Ssl_Init sample_init_env, Ssl_Init sample_init_env, Lib_Term, Lib_Term,
      Lib_Init True, Ssl_Init sample_init_env] lib_start = Inr s \<and> lib_ok s \<and> apr_exact s"
proof -
  let ?ops = "[Lib_Init True, Ssl_Init sample_init_env, Ssl_Init sample_init_env, Lib_Term, Lib_Term,
      Lib_Init True, Ssl_Init sample_init_env]"
  have "\<forall>op \<in> set ?ops. quiet op" by (simp add: quiet_def)
  from library_lifecycle [OF this] show ?thesis by (auto simp: ensures_def)
qed

text \<open>
  A file name given to \<open>randSet\<close> does not survive the library: it lives in the global pool,
  so that after \<open>terminate\<close> and a new \<open>initialize\<close> the initialisation of the SSL part reads
  memory that has been released.
\<close>

theorem randSet_stale:
  assumes "lib_ok s" and "l_pool s = Some p" and "p < l_next_pool s"
  shows "lib_run [Rand_Set (Some f), Lib_Term, Lib_Init True, Ssl_Init env] s = Inl Use_After_Free"
proof -
  let ?s1 = "s\<lparr>l_rand_file := Some (p, f)\<rparr>"
  have ok: "lib_ok ?s1" and p: "l_pool ?s1 = Some p"
    using assms by (simp_all add: lib_ok_def)
  obtain s2 where t: "Library_terminate ?s1 = Inr s2"
    and s2: "l_ssl_initialized s2 = 0" "l_pool s2 = None" "l_rand_file s2 = Some (p, f)" "p < l_next_pool s2"
    using ssl_init_cleanup_ok [OF ok p] assms(3) by (auto simp: ensures_def)
  have "lib_exec (Rand_Set (Some f)) s = Inr ?s1"
    by (simp add: randSet_def assms(2))
  then show ?thesis
    using s2 by (simp add: lib_run_def t Library_initialize_def SSL_initialize_def read_rand_file_def)
qed

theorem randSet_stale_witness:
  "lib_run [Rand_Set (Some [120]), Lib_Term, Lib_Init True, Ssl_Init sample_init_env]
     (snd (Library_initialize True lib_start)) = Inl Use_After_Free"
  by (rule randSet_stale [where p = 0]) (simp_all add: Library_initialize_def lib_start_def lib_ok_def)

text \<open>
  The three kinds of application data of an \<open>SSL\<close> do not interfere: after any number of
  initialisations each one reads back what was stored, and storing one leaves the others.
\<close>

theorem app_data_separate:
  assumes "ex_data_contract get_ex set_ex" and "new_indices res" and "\<forall>k. 0 \<le> res k"
    and "l_idx2 s0 = -1" and "l_idx3 s0 = -1" and "l_idx4 s0 = -1"
    and "s = (SSL_init_app_data_idx res ^^ Suc n) s0"
  shows "SSL_get_app_data2 get_ex s (SSL_set_app_data2 set_ex s d v) = v \<and>
    SSL_get_app_data3 get_ex s (SSL_set_app_data3 set_ex s d v) = v \<and>
    SSL_get_app_data4 get_ex s (SSL_set_app_data4 set_ex s d v) = v \<and>
    SSL_get_app_data2 get_ex s (SSL_set_app_data3 set_ex s d v) = SSL_get_app_data2 get_ex s d \<and>
    SSL_get_app_data2 get_ex s (SSL_set_app_data4 set_ex s d v) = SSL_get_app_data2 get_ex s d \<and>
    SSL_get_app_data3 get_ex s (SSL_set_app_data2 set_ex s d v) = SSL_get_app_data3 get_ex s d \<and>
    SSL_get_app_data3 get_ex s (SSL_set_app_data4 set_ex s d v) = SSL_get_app_data3 get_ex s d \<and>
    SSL_get_app_data4 get_ex s (SSL_set_app_data2 set_ex s d v) = SSL_get_app_data4 get_ex s d \<and>
    SSL_get_app_data4 get_ex s (SSL_set_app_data3 set_ex s d v) = SSL_get_app_data4 get_ex s d"
proof -
  let ?s1 = "SSL_init_app_data_idx res s0"
  have 1: "0 \<le> l_idx2 ?s1" "0 \<le> l_idx3 ?s1" "0 \<le> l_idx4 ?s1"
    using assms(3-6) by (simp_all add: SSL_init_app_data_idx_def Let_def)
  have "(SSL_init_app_data_idx res ^^ Suc n) s0 = ?s1"
    by (induction n) (use 1 in \<open>simp_all add: SSL_init_app_data_idx_def\<close>)
  moreover have "idx_distinct ?s1"
    using assms(4-6) by (intro conjunct1 [OF idx_step [OF assms(2)]]) (simp_all add: idx_distinct_def idx_origin_def)
  ultimately show ?thesis
    using assms(1,7) 1 by (simp add: app_data_defs ex_data_contract_def idx_distinct_def)
qed

theorem app_data_separate_witness:
  "\<exists>s. s = (SSL_init_app_data_idx int ^^ Suc 1) lib_start \<and>
     SSL_get_app_data3 (\<lambda>d. d) s (SSL_set_app_data4 (\<lambda>d i v. d(i := v)) s (\<lambda>_. 0) (7 :: nat)) =
     SSL_get_app_data3 (\<lambda>d. d) s (\<lambda>_. 0) \<and>
     SSL_get_app_data4 (\<lambda>d. d) s (SSL_set_app_data4 (\<lambda>d i v. d(i := v)) s (\<lambda>_. 0) (7 :: nat)) = 7"
proof -
  have c: "ex_data_contract (\<lambda>d. d) (\<lambda>d i (v :: nat). d(i := v))"
    by (simp add: ex_data_contract_def)
  have n: "new_indices int" "\<forall>k. 0 \<le> int k"
    by (simp_all add: new_indices_def)
  have i: "l_idx2 lib_start = -1" "l_idx3 lib_start = -1" "l_idx4 lib_start = -1"
    by (simp_all add: lib_start_def)
  obtain s where s: "s = (SSL_init_app_data_idx int ^^ Suc 1) lib_start" by blast
  show ?thesis
    using app_data_separate [OF c n i s, of "\<lambda>_. 0" 7] s by blast
qed

end
