(* ===== verification/Pool_Tree.thy ===== *)
theory Pool_Tree
  imports C_Model
begin

text \<open>
  The tree of the pools that Java makes (\<^verbatim>\<open>native/src/pool.c\<close>). A pool is an index into the list
  of all pools ever made, so that a child comes after its parent. \<open>subtree\<close> lists the pools
  that \<open>apr_pool_destroy\<close> destroys, in its order; the lemmas show that each is listed once and
  that what is left is a tree again.
\<close>

section \<open>Pools\<close>

text \<open>
  The parent of a pool: none when there was no global pool, the global pool, or a pool of Java.
\<close>

datatype pool_parent = No_Parent | Global_Parent | Parent nat

record jpool =
  jp_live :: bool
  jp_parent :: pool_parent

text \<open>
  A new pool becomes the first child of its parent, and \<open>apr_pool_destroy\<close> destroys the first
  child as long as there is one, then runs the cleanups of the pool itself.
\<close>

definition children :: "jpool list \<Rightarrow> nat \<Rightarrow> nat list" where
  "children ps q = rev (filter (\<lambda>r. jp_live (ps ! r) \<and> jp_parent (ps ! r) = Parent q) [Suc q..<length ps])"

lemma children_iff:
  "r \<in> set (children ps q) \<longleftrightarrow> q < r \<and> r < length ps \<and> jp_live (ps ! r) \<and> jp_parent (ps ! r) = Parent q"
  by (auto simp: children_def)

lemma distinct_children [simp]: "distinct (children ps q)"
  by (simp add: children_def)

function subtree :: "jpool list \<Rightarrow> nat \<Rightarrow> nat list" where
  "subtree ps q = concat (map (subtree ps) (children ps q)) @ [q]"
  by pat_completeness auto
termination
  by (relation "measure (\<lambda>(ps, q). length ps - q)") (auto simp: children_iff)

declare subtree.simps [simp del]

text \<open>The pools below the global pool.\<close>

definition global_children :: "jpool list \<Rightarrow> nat list" where
  "global_children ps = rev (filter (\<lambda>r. jp_live (ps ! r) \<and> jp_parent (ps ! r) = Global_Parent) [0..<length ps])"

definition below_global :: "jpool list \<Rightarrow> nat list" where
  "below_global ps = concat (map (subtree ps) (global_children ps))"

lemma global_children_iff:
  "r \<in> set (global_children ps) \<longleftrightarrow> r < length ps \<and> jp_live (ps ! r) \<and> jp_parent (ps ! r) = Global_Parent"
  by (auto simp: global_children_def)

section \<open>What is below a pool\<close>

definition parents :: "jpool list \<Rightarrow> (nat \<times> nat) set" where
  "parents ps = {(r, q). r \<in> set (children ps q)}"

lemma parents_unique: "single_valued (parents ps)"
  by (auto simp: single_valued_def parents_def children_iff)

lemma parents_less: "(r, q) \<in> (parents ps)\<^sup>* \<Longrightarrow> q \<le> r"
  by (induction rule: rtrancl_induct) (auto simp: parents_def children_iff)

lemma subtree_iff: "r \<in> set (subtree ps q) \<longleftrightarrow> (r, q) \<in> (parents ps)\<^sup>*"
proof (induction ps q rule: subtree.induct)
  case (1 ps q)
  have "r \<in> set (subtree ps q) \<longleftrightarrow> r = q \<or> (\<exists>s \<in> set (children ps q). (r, s) \<in> (parents ps)\<^sup>*)"
    using 1 by (subst subtree.simps) auto
  also have "\<dots> \<longleftrightarrow> (r, q) \<in> (parents ps)\<^sup>*"
    by (auto simp: parents_def elim: rtranclE intro: rtrancl_into_rtrancl)
  finally show ?case .
qed

lemma subtree_root: "q \<in> set (subtree ps q)"
  by (simp add: subtree_iff)

lemma subtree_live:
  assumes "r \<in> set (subtree ps q)" and "r \<noteq> q"
  shows "q < r \<and> r < length ps \<and> jp_live (ps ! r)"
proof -
  obtain s where "(r, s) \<in> parents ps" "(s, q) \<in> (parents ps)\<^sup>*"
    using assms by (auto simp: subtree_iff elim: converse_rtranclE)
  then show ?thesis
    using parents_less [of s q ps] by (auto simp: parents_def children_iff)
qed

lemma subtree_child: "r \<in> set (children ps p) \<Longrightarrow> p \<in> set (subtree ps q) \<Longrightarrow> r \<in> set (subtree ps q)"
  by (auto simp: subtree_iff parents_def intro: converse_rtrancl_into_rtrancl)

text \<open>Two pools that have a descendant in common are on one branch.\<close>

lemma subtree_branch:
  assumes "r \<in> set (subtree ps a)" and "r \<in> set (subtree ps b)"
  shows "a \<in> set (subtree ps b) \<or> b \<in> set (subtree ps a)"
  using single_valued_confluent [OF parents_unique, of r a ps b] assms by (auto simp: subtree_iff)

lemma siblings_disjoint:
  assumes "a \<in> set (children ps q)" and "b \<in> set (children ps q)" and "a \<noteq> b"
  shows "set (subtree ps a) \<inter> set (subtree ps b) = {}"
proof -
  have False if xy: "x \<in> set (children ps q)" "y \<in> set (children ps q)" "x \<noteq> y" "x \<in> set (subtree ps y)" for x y
  proof -
    obtain s where s: "(x, s) \<in> parents ps" "(s, y) \<in> (parents ps)\<^sup>*"
      using xy(3,4) by (auto simp: subtree_iff elim: converse_rtranclE)
    moreover have "s = q" using xy(1) s(1) by (auto simp: parents_def children_iff)
    ultimately show False using parents_less [of q y ps] xy(2) by (auto simp: children_iff)
  qed
  then show ?thesis using subtree_branch [of _ ps a b] assms by blast
qed

lemma last_subtree: "last (subtree ps q) = q"
  by (subst subtree.simps) simp

lemma distinct_subtrees:
  assumes "distinct qs" and "\<And>q. q \<in> set qs \<Longrightarrow> distinct (subtree ps q)"
    and "\<And>a b. a \<in> set qs \<Longrightarrow> b \<in> set qs \<Longrightarrow> a \<noteq> b \<Longrightarrow> set (subtree ps a) \<inter> set (subtree ps b) = {}"
  shows "distinct (concat (map (subtree ps) qs))"
proof (rule distinct_concat)
  have "inj (subtree ps)" by (rule inj_on_inverseI [where g = last]) (simp add: last_subtree)
  then show "distinct (map (subtree ps) qs)" using assms(1) by (auto simp: distinct_map intro: inj_on_subset)
  show "set ys \<inter> set zs = {}"
    if "ys \<in> set (map (subtree ps) qs)" "zs \<in> set (map (subtree ps) qs)" "ys \<noteq> zs" for ys zs
    using that assms(3) by auto
qed (use assms(2) in auto)

lemma distinct_subtree: "distinct (subtree ps q)"
proof (induction ps q rule: subtree.induct)
  case (1 ps q)
  have "distinct (concat (map (subtree ps) (children ps q)))"
    using 1 siblings_disjoint by (intro distinct_subtrees) auto
  moreover have "q \<notin> set (subtree ps r)" if "r \<in> set (children ps q)" for r
    using that parents_less [of q r ps] by (auto simp: subtree_iff children_iff)
  ultimately show ?case by (subst subtree.simps) auto
qed

lemma distinct_below_global: "distinct (below_global ps)"
  unfolding below_global_def
proof (intro distinct_subtrees distinct_subtree)
  show "distinct (global_children ps)" by (simp add: global_children_def)
  fix a b
  assume ab: "a \<in> set (global_children ps)" "b \<in> set (global_children ps)" "a \<noteq> b"
  have "x = y" if xy: "x \<in> set (global_children ps)" "x \<in> set (subtree ps y)" for x y
  proof (rule ccontr)
    assume "x \<noteq> y"
    then obtain s where "(x, s) \<in> parents ps"
      using xy(2) by (auto simp: subtree_iff elim: converse_rtranclE)
    then show False using xy(1) by (simp add: parents_def children_iff global_children_iff)
  qed
  then show "set (subtree ps a) \<inter> set (subtree ps b) = {}"
    using subtree_branch [of _ ps a b] ab by blast
qed

section \<open>The tree stays a tree\<close>

text \<open>
  A live pool has a live parent; \<open>g\<close> says that there is a global pool.
\<close>

definition parent_ok :: "bool \<Rightarrow> jpool list \<Rightarrow> nat \<Rightarrow> pool_parent \<Rightarrow> bool" where
  "parent_ok g ps r par =
     (case par of No_Parent \<Rightarrow> True | Global_Parent \<Rightarrow> g | Parent p \<Rightarrow> p < r \<and> jp_live (ps ! p))"

lemma parent_ok_simps [simp]:
  "parent_ok g ps r No_Parent" "parent_ok g ps r Global_Parent \<longleftrightarrow> g"
  "parent_ok g ps r (Parent p) \<longleftrightarrow> p < r \<and> jp_live (ps ! p)"
  by (simp_all add: parent_ok_def)

definition pools_ok :: "bool \<Rightarrow> jpool list \<Rightarrow> bool" where
  "pools_ok g ps \<longleftrightarrow> (\<forall>r < length ps. jp_live (ps ! r) \<longrightarrow> parent_ok g ps r (jp_parent (ps ! r)))"

lemma pools_okD: "pools_ok g ps \<Longrightarrow> r < length ps \<Longrightarrow> jp_live (ps ! r) \<Longrightarrow> parent_ok g ps r (jp_parent (ps ! r))"
  by (simp add: pools_ok_def)

text \<open>The same pools, of which those in \<open>dead\<close> have been destroyed.\<close>

definition pools_without :: "nat set \<Rightarrow> jpool list \<Rightarrow> jpool list \<Rightarrow> bool" where
  "pools_without dead ps ps' \<longleftrightarrow> length ps' = length ps \<and>
     (\<forall>r < length ps. jp_parent (ps' ! r) = jp_parent (ps ! r) \<and>
       (jp_live (ps' ! r) \<longleftrightarrow> jp_live (ps ! r) \<and> r \<notin> dead))"

lemma pools_without_refl: "pools_without {} ps ps"
  by (simp add: pools_without_def)

lemma pools_without_step:
  assumes "pools_without dead ps ps'"
  shows "pools_without (insert q dead) ps (ps'[q := (ps' ! q)\<lparr>jp_live := False\<rparr>])"
proof -
  have upd: "ps'[q := (ps' ! q)\<lparr>jp_live := False\<rparr>] ! r = (if r = q then (ps' ! r)\<lparr>jp_live := False\<rparr> else ps' ! r)"
    if "r < length ps" for r
    using that assms by (cases "r = q") (simp_all add: pools_without_def)
  show ?thesis using assms unfolding pools_without_def by (simp add: upd)
qed

lemma pools_without_trans:
  "pools_without A ps ps' \<Longrightarrow> pools_without B ps' ps'' \<Longrightarrow> pools_without (A \<union> B) ps ps''"
  by (auto simp: pools_without_def)

text \<open>What is destroyed must include the children of what is destroyed.\<close>

lemma pools_ok_without:
  assumes "pools_ok g ps" and "pools_without dead ps ps'"
    and "\<And>r p. p \<in> dead \<Longrightarrow> r \<in> set (children ps p) \<Longrightarrow> r \<in> dead"
  shows "pools_ok g ps'"
  unfolding pools_ok_def
proof (intro allI impI)
  fix r
  assume "r < length ps'" and live: "jp_live (ps' ! r)"
  then have r: "r < length ps" "jp_live (ps ! r)" "r \<notin> dead" "jp_parent (ps' ! r) = jp_parent (ps ! r)"
    using assms(2) by (auto simp: pools_without_def)
  note old = pools_okD [OF assms(1) r(1,2)]
  show "parent_ok g ps' r (jp_parent (ps' ! r))"
  proof (cases "jp_parent (ps ! r)")
    case (Parent p)
    then have p: "p < r" "jp_live (ps ! p)" using old by simp_all
    then have "r \<in> set (children ps p)" using Parent r by (simp add: children_iff)
    then have "p \<notin> dead" using assms(3) r(3) by blast
    then show ?thesis using p r Parent assms(2) by (simp add: pools_without_def)
  qed (use old r(4) in simp_all)
qed

lemma pools_ok_subtree:
  "pools_ok g ps \<Longrightarrow> pools_without (set (subtree ps q)) ps ps' \<Longrightarrow> pools_ok g ps'"
  by (erule pools_ok_without) (auto intro: subtree_child)

lemma below_global_iff:
  "r \<in> set (below_global ps) \<longleftrightarrow> (\<exists>q \<in> set (global_children ps). r \<in> set (subtree ps q))"
  by (simp add: below_global_def)

lemma below_global_child:
  "p \<in> set (below_global ps) \<Longrightarrow> r \<in> set (children ps p) \<Longrightarrow> r \<in> set (below_global ps)"
  unfolding below_global_iff using subtree_child by blast

lemma below_global_root: "r \<in> set (global_children ps) \<Longrightarrow> r \<in> set (below_global ps)"
  unfolding below_global_iff using subtree_root by blast

lemma pools_ok_below_global:
  assumes "pools_ok g ps" and "pools_without (set (below_global ps)) ps ps'"
  shows "pools_ok False ps'"
proof -
  have ok: "pools_ok g ps'"
    by (rule pools_ok_without [OF assms]) (rule below_global_child)
  have "jp_parent (ps' ! r) \<noteq> Global_Parent" if r: "r < length ps'" "jp_live (ps' ! r)" for r
  proof
    assume "jp_parent (ps' ! r) = Global_Parent"
    then have "r \<in> set (global_children ps)"
      using r assms(2) by (auto simp: global_children_iff pools_without_def)
    then have "r \<in> set (below_global ps)" by (rule below_global_root)
    then show False using r assms(2) by (simp add: pools_without_def)
  qed
  then have "parent_ok False ps' r (jp_parent (ps' ! r))" if "r < length ps'" "jp_live (ps' ! r)" for r
    using pools_okD [OF ok that] that by (cases "jp_parent (ps' ! r)") auto
  then show ?thesis by (simp add: pools_ok_def)
qed

lemma pools_ok_create:
  assumes "pools_ok g ps" and "parent_ok g ps (length ps) par"
  shows "pools_ok g (ps @ [\<lparr>jp_live = True, jp_parent = par\<rparr>])"
proof -
  have "parent_ok g (ps @ [x]) r p = parent_ok g ps r p" if "r \<le> length ps" for x r p
    using that by (cases p) (auto simp: nth_append)
  then show ?thesis using assms by (auto simp: pools_ok_def nth_append less_Suc_eq)
qed

lemma pools_ok_global:
  assumes "pools_ok False ps"
  shows "pools_ok g ps"
proof -
  have "parent_ok g ps r p" if "parent_ok False ps r p" for r p
    using that by (cases p) simp_all
  then show ?thesis using assms by (simp add: pools_ok_def)
qed

text \<open>When every live pool has a parent, the global pool is above all of them.\<close>

lemma below_global_all:
  assumes "pools_ok g ps" and "\<forall>po \<in> set ps. jp_live po \<longrightarrow> jp_parent po \<noteq> No_Parent"
  shows "r < length ps \<Longrightarrow> jp_live (ps ! r) \<Longrightarrow> r \<in> set (below_global ps)"
proof (induction r rule: less_induct)
  case (less r)
  show ?case
  proof (cases "jp_parent (ps ! r)")
    case No_Parent
    then show ?thesis using assms(2) less.prems by (meson nth_mem)
  next
    case Global_Parent
    then show ?thesis
      using less.prems by (intro below_global_root) (simp add: global_children_iff)
  next
    case (Parent p)
    then have p: "p < r" "jp_live (ps ! p)" using pools_okD [OF assms(1) less.prems] by simp_all
    then have "p \<in> set (below_global ps)" using less by simp
    moreover have "r \<in> set (children ps p)" using p less.prems Parent by (simp add: children_iff)
    ultimately show ?thesis by (rule below_global_child)
  qed
qed

lemma below_global_live:
  assumes "r \<in> set (below_global ps)"
  shows "r < length ps \<and> jp_live (ps ! r)"
proof -
  obtain q where q: "q \<in> set (global_children ps)" "r \<in> set (subtree ps q)"
    using assms by (auto simp: below_global_iff)
  then show ?thesis
    using subtree_live [OF q(2)] by (cases "r = q") (simp_all add: global_children_iff)
qed

end
