(* ===== verification/Context_Types.thy ===== *)
theory Context_Types
  imports Ssl_Conf Ssl_Certs Alpn_Select
begin

text \<open>
  What every context is like: \<open>ctx_typed\<close> says of the record \<open>tcn_ssl_ctxt_t\<close> what C does not:
  that the arrays have their lengths, that lengths agree with the data they belong to, and
  which values fields can have. \<open>ctx_exec\<close> collects the operations of
  \<^verbatim>\<open>native/src/sslcontext.c\<close>, \<^verbatim>\<open>native/src/sslconf.c\<close> and \<^verbatim>\<open>native/src/ssl.c\<close> that write to a
  context, with whatever the libraries answer; an interpretation of \<open>machine\<close> shows that they
  keep it.
\<close>

section \<open>The operations that change a context\<close>

text \<open>
  \<open>Set_Verify\<close> stands for both \<open>setVerify\<close>, of a context and of a connection, which write the
  same fields. \<open>Assign\<close> is a configuration made, given commands and assigned.
\<close>

datatype ctx_op =
    Set_Context_Id "byte list \<Rightarrow> byte list" "byte list option"
  | Set_BIO "ptr option" int
  | Set_CA_Revocation revocation_env "byte list option" "byte list option"
  | Set_CA_Certificate ca_env "byte list option" "byte list option"
  | Set_Shutdown_Type int
  | Set_Verify "ptr option" int int
  | Set_Random "byte list option"
  | Set_ALPN "byte list" nat
  | Set_Alpn_Protos bool "nat \<Rightarrow> bool" "byte list option list option" int
  | Set_Verifier "(ptr option \<times> ptr) option"
  | Set_Certificate file_env ctx_env "byte list option" "byte list option" "byte list option" int "byte list list" pass_cb
  | Set_Certificate_Raw ctx_env "ptr option" "ptr option" int
  | Assign conf_env ptr "32 word" "command list"
  | Cleanup

definition configure :: "conf_env \<Rightarrow> ptr \<Rightarrow> 32 word \<Rightarrow> command list \<Rightarrow> tcn_ssl_conf_ctxt_t run" where
  "configure env p flags cmds =
     (case fst (SSLConf_make (Some p) 0 True flags) of
        None \<Rightarrow> Inl Null_Deref
      | Some conf \<Rightarrow> run_checks env cmds conf)"

fun ctx_exec :: "ctx_op \<Rightarrow> tcn_ssl_ctxt_t \<Rightarrow> tcn_ssl_ctxt_t run" where
  "ctx_exec (Set_Context_Id sha1 vhost) c = Inr (setContextId sha1 vhost c)"
| "ctx_exec (Set_BIO bio dir) c = Inr (fst (setBIO bio dir c))"
| "ctx_exec (Set_CA_Revocation env file path) c = Inr (fst (snd (setCARevocation env file path c)))"
| "ctx_exec (Set_CA_Certificate env file path) c = Inr (fst (snd (setCACertificate env file path c)))"
| "ctx_exec (Set_Shutdown_Type type) c = Inr (setShutdownType type c)"
| "ctx_exec (Set_Verify store level depth) c = Inr (set_verify_fields store level depth c)"
| "ctx_exec (Set_Random f) c = Inr (setRandom f c)"
| "ctx_exec (Set_ALPN buf len) c = Inr (fst (snd (setALPN buf len c)))"
| "ctx_exec (Set_Alpn_Protos malloc_ok realloc_ok protos behaviour) c =
     run_bind (setAlpnProtos malloc_ok realloc_ok protos behaviour c) (\<lambda>(c, _). Inr c)"
| "ctx_exec (Set_Verifier verifier) c = Inr (fst (setCertVerifyCallback verifier c))"
| "ctx_exec (Set_Certificate env x cert key password idx answers cb) c =
     run_bind (setCertificate env x cert key password idx answers cb c) (\<lambda>r. Inr (cr_ctxt r))"
| "ctx_exec (Set_Certificate_Raw x cert key idx) c = Inr (fst (snd (setCertificateRaw x cert key idx c)))"
| "ctx_exec (Assign env p flags cmds) c =
     run_bind (configure env p flags cmds) (\<lambda>conf. run_bind (SSLConf_assign conf c) (\<lambda>(c, _). Inr c))"
| "ctx_exec Cleanup c = Inr (fst (ssl_context_cleanup c))"

text \<open>
  What the operations need: a digest of 20 bytes, names of protocols of at most 127 bytes, and
  commands that \<open>check\<close> can read.
\<close>

fun ctx_good :: "ctx_op \<Rightarrow> bool" where
  "ctx_good (Set_Context_Id sha1 vhost) \<longleftrightarrow> (\<forall>x. length (sha1 x) = 20)"
| "ctx_good (Set_Alpn_Protos malloc_ok realloc_ok protos behaviour) \<longleftrightarrow>
     protos = None \<or> (\<exists>ss. protos = Some (map Some ss) \<and> short_names ss)"
| "ctx_good (Assign env p flags cmds) \<longleftrightarrow> safe (configure env p flags cmds)"
| "ctx_good _ \<longleftrightarrow> True"

section \<open>Well-typed contexts\<close>

definition alpn_typed :: "block option \<Rightarrow> nat \<Rightarrow> bool" where
  "alpn_typed data len \<longleftrightarrow>
     (\<exists>ps. valid_names ps \<and> rdn_cell (case data of None \<Rightarrow> [] | Some b \<Rightarrow> b) 0 len = Inr (wire ps))"

definition ctx_typed :: "tcn_ssl_ctxt_t \<Rightarrow> bool" where
  "ctx_typed c \<longleftrightarrow>
     length (c_context_id c) = 20 \<and>
     length (c_certs c) = SSL_AIDX_MAX \<and> length (c_keys c) = SSL_AIDX_MAX \<and>
     0 < c_verify_depth c \<and>
     (c_verifier c = None \<longleftrightarrow> c_verifier_method c = None) \<and>
     c_alpnlen c = (case c_alpn c of None \<Rightarrow> 0 | Some b \<Rightarrow> int (length b)) \<and>
     alpn_typed (c_alpn_proto_data c) (c_alpn_proto_len c) \<and>
     c_next_proto_data c = None \<and> c_next_proto_len c = 0 \<and>
     c_no_ocsp_check c \<in> {0, 1} \<and> c_ocsp_soft_fail c \<in> {0, 1}"

lemma alpn_typed_nothing: "alpn_typed data 0"
  unfolding alpn_typed_def by (intro exI [of _ "[]"]) (simp add: rdn_cell_def)

lemma valid_names_nonempty: "short_names ss \<Longrightarrow> valid_names (nonempty_names ss)"
  by (force simp: short_names_def nonempty_names_def valid_names_def valid_name_def)

lemma pbuf_holds_typed:
  assumes "pbuf_holds ps b" and "valid_names ps"
  shows "alpn_typed (Some (pb_block b)) (pb_len b)"
proof -
  have "rdn_cell (pb_block b) 0 (pb_len b) = Inr (wire ps)"
    using assms(1) rdn_cell_append [of "wire ps" "length (wire ps)" "[]"] by (simp add: pbuf_holds_def)
  then show ?thesis using assms(2) by (auto simp: alpn_typed_def)
qed

lemma initProtocols_typed:
  assumes "protos = None \<or> (\<exists>ss. protos = Some (map Some ss) \<and> short_names ss)"
    and "alpn_typed (slot_data slot) (slot_len slot)"
  shows "ensures (initProtocols malloc_ok realloc_ok protos slot) (\<lambda>(rv, slot').
    alpn_typed (slot_data slot') (slot_len slot') \<and> (rv = 0 \<longrightarrow> slot_data slot' \<noteq> None))"
proof (cases protos)
  case None
  then show ?thesis using assms(2) by (simp add: initProtocols_def)
next
  case (Some names)
  then obtain ss where ss: "protos = Some (map Some ss)" "short_names ss" using assms(1) by auto
  from init_protocols_loop_holds [OF pbuf_holds_init ss(2), of realloc_ok] show ?thesis
    using ss assms(2) pbuf_holds_typed [OF _ valid_names_nonempty [OF ss(2)]] alpn_typed_nothing
    by (auto simp: initProtocols_def pbuf_holds_def split: option.splits)
qed

section \<open>The operations keep the type\<close>

lemma setAlpnProtos_typed:
  assumes "ctx_typed c" and "ctx_good (Set_Alpn_Protos malloc_ok realloc_ok protos behaviour)"
  shows "ensures (setAlpnProtos malloc_ok realloc_ok protos behaviour c) (\<lambda>(c', _). ctx_typed c')"
proof -
  let ?slot = "\<lparr>slot_data = c_alpn_proto_data c, slot_len = c_alpn_proto_len c\<rparr>"
  have "alpn_typed (slot_data ?slot) (slot_len ?slot)" using assms(1) by (simp add: ctx_typed_def)
  from initProtocols_typed [OF _ this, of protos malloc_ok realloc_ok] assms(2) obtain rv slot
    where i: "initProtocols malloc_ok realloc_ok protos ?slot = Inr (rv, slot)"
      and t: "alpn_typed (slot_data slot) (slot_len slot)" "rv = 0 \<Longrightarrow> slot_data slot \<noteq> None"
    by (auto simp: ensures_def)
  then show ?thesis
    using assms(1) by (auto simp: setAlpnProtos_def ctx_typed_def alpn_typed_def Let_def)
qed

lemma password_safe: "safe (SSL_password_callback PEM_BUFSIZE answers cb)"
  by (auto simp: SSL_password_callback_def PEM_BUFSIZE_def Let_def split: list.splits prod.splits)

lemma pem_key_loop_safe: "safe (pem_key_loop env f n answers cb)"
proof (induction n arbitrary: answers cb)
  case (Suc n)
  show ?case
    by (auto intro!: safe_bindI password_safe Suc.IH split: option.splits)
qed simp

lemma load_pem_key_safe: "safe (load_pem_key env f answers cb)"
  by (simp add: load_pem_key_def pem_key_loop_safe)

lemma ssl_load_pkcs12_safe: "safe (ssl_load_pkcs12 env f answers cb)"
  by (auto simp: ssl_load_pkcs12_def intro!: safe_bindI password_safe)

lemma set_slot_typed [simp]: "ctx_typed c \<Longrightarrow> ctx_typed (set_slot i cert key c)"
  by (simp add: ctx_typed_def set_slot_def)

lemma slot_typed [simp]:
  "ctx_typed c \<Longrightarrow> ctx_typed (c\<lparr>c_keys := (c_keys c)[i := key]\<rparr>)"
  "ctx_typed c \<Longrightarrow> ctx_typed (c\<lparr>c_certs := (c_certs c)[i := cert]\<rparr>)"
  "ctx_typed c \<Longrightarrow> ctx_typed (c\<lparr>c_cb_data := x\<rparr>)"
  by (simp_all add: ctx_typed_def)

lemma load_slot_typed:
  assumes "ctx_typed c"
  shows "ensures (load_slot env cert_file key_file i answers cb c) (\<lambda>(ok, c', cb', calls). ctx_typed c')"
proof -
  obtain r cb1 a1 where p: "ssl_load_pkcs12 env cert_file answers cb = Inr (r, cb1, a1)"
    using ssl_load_pkcs12_safe by (metis safeE prod_cases3)
  obtain key cb2 a2 where k: "load_pem_key env key_file answers cb = Inr (key, cb2, a2)"
    using load_pem_key_safe by (metis safeE prod_cases3)
  show ?thesis
    using assms by (auto simp: load_slot_def p k Let_def set_slot_def ctx_typed_def split: option.splits)
qed

lemma setCertificate_typed:
  assumes "ctx_typed c"
  shows "ensures (setCertificate env x cert key password idx answers cb c) (\<lambda>r. ctx_typed (cr_ctxt r))"
proof (cases "idx_ok idx \<and> cert \<noteq> None")
  case True
  then obtain f where cert: "cert = Some f" and idx: "idx_ok idx" by auto
  obtain c1 cb1 where pass: "(case password of
      None \<Rightarrow> (c, cb)
    | Some p \<Rightarrow> (c\<lparr>c_cb_data := True\<rparr>, cb\<lparr>pw_password := take (SSL_MAX_PASSWORD_LEN - 1) (c_str p)\<rparr>)) = (c1, cb1)"
    and c1: "ctx_typed c1"
    using assms by (cases password) auto
  show ?thesis
    unfolding setCertificate_def Let_def pass
    using idx by (cases key)
      (auto simp: cert Let_def split: prod.splits intro!: ensures_mono [OF load_slot_typed [OF c1]])
next
  case False
  then show ?thesis
    using assms by (auto simp: setCertificate_def Let_def split: option.splits)
qed

lemma setCertificateRaw_typed:
  "ctx_typed c \<Longrightarrow> ctx_typed (fst (snd (setCertificateRaw x cert evp idx c)))"
  by (auto simp: setCertificateRaw_def Let_def split: prod.splits) (simp add: ctx_typed_def)

text \<open>A flag of the configuration is 0 or 1.\<close>

lemma last_flag: "old \<in> {0, 1} \<Longrightarrow> last_value key flag_value cmds old \<in> {0, 1}"
proof -
  assume old: "old \<in> {0, 1}"
  let ?vs = "map the (filter (\<lambda>x. x \<noteq> None) (map (gives key flag_value) cmds))"
  have vs: "set (old # ?vs) \<subseteq> {0, 1}"
    using old by (auto simp: gives_def flag_value_def split: if_split_asm)
  have "last (old # ?vs) \<in> set (old # ?vs)" by (rule last_in_set) simp
  with vs show ?thesis unfolding last_value_def by (rule subsetD)
qed

lemma configure_flags:
  assumes "configure env p flags cmds = Inr conf"
  shows "cc_cctx conf = Some p \<and> cc_no_ocsp_check conf \<in> {0, 1} \<and> cc_ocsp_soft_fail conf \<in> {0, 1}"
proof -
  have "run_checks env cmds \<lparr>cc_cctx = Some p, cc_no_ocsp_check = OCSP_NO_CHECK_DEFAULT,
      cc_ocsp_soft_fail = OCSP_SOFT_FAIL_DEFAULT, cc_ocsp_timeout = OCSP_TIMEOUT_DEFAULT,
      cc_ocsp_verify_flags = OCSP_VERIFY_FLAGS_DEFAULT\<rparr> = Inr conf"
    using assms by (simp add: configure_def SSLConf_make_def)
  note conf = run_checks_settings [OF this]
  have flags: "last_value key flag_value cmds 1 \<in> {0, 1}" for key
    by (rule last_flag) simp
  show ?thesis
    using flags [of NO_OCSP_CHECK] flags [of OCSP_SOFT_FAIL]
    by (simp add: conf OCSP_NO_CHECK_DEFAULT_def OCSP_SOFT_FAIL_DEFAULT_def)
qed

lemma ctx_exec_typed:
  assumes "ctx_typed c" and "ctx_good op"
  shows "ensures (ctx_exec op c) ctx_typed"
proof (cases op)
  case (Set_Alpn_Protos malloc_ok realloc_ok protos behaviour)
  then show ?thesis
    using ensures_mono [OF setAlpnProtos_typed [OF assms(1) assms(2) [unfolded Set_Alpn_Protos]]]
    by (simp add: split_beta)
next
  case (Set_Certificate env x cert key password idx answers cb)
  then show ?thesis by (auto intro: ensures_mono [OF setCertificate_typed [OF assms(1)]])
next
  case (Set_Certificate_Raw x cert key idx)
  then show ?thesis using setCertificateRaw_typed [OF assms(1)] by simp
next
  case (Assign env p flags cmds)
  then obtain conf where conf: "configure env p flags cmds = Inr conf" using assms(2) by (auto elim: safeE)
  then show ?thesis
    using assms(1) configure_flags [OF conf] Assign by (auto simp: SSLConf_assign_def ctx_typed_def)
next
  case (Set_CA_Revocation env f path)
  then show ?thesis
    using assms(1) by (auto simp: setCARevocation_def ctx_typed_def Let_def split: prod.splits)
next
  case (Set_CA_Certificate env f path)
  then show ?thesis
    using assms(1) by (auto simp: setCACertificate_def ctx_typed_def Let_def)
qed (use assms in \<open>auto simp: ctx_typed_def setContextId_def setBIO_def setShutdownType_def set_verify_fields_def Let_def
    setRandom_def setALPN_def setCertVerifyCallback_def ssl_context_cleanup_def alpn_typed_nothing split: option.splits\<close>)

interpretation context_type: machine ctx_exec "\<lambda>_. ctx_typed" ctx_good
  by unfold_locales (rule ctx_exec_typed)

lemma make_typed:
  assumes "SSLContext_make env protocol mode = (Some c, calls)" and "length (m_sha1 env SSL_DEFAULT_VHOST_NAME) = 20"
  shows "ctx_typed c"
proof -
  obtain v where v: "max_version protocol = Some v" using make_version_calls [OF assms(1)] .
  then have "protocol \<noteq> SSL_PROTOCOL_NONE"
    by (auto simp: max_version_def has_proto_def SSL_PROTOCOL_NONE_def)
  with v assms show ?thesis
    by (cases "m_ctx_new env (SSL_CTX_method mode)"; cases "m_pcalloc env")
      (auto simp: SSLContext_make_def Let_def ctx_typed_def zero_ctxt_def alpn_typed_nothing OCSP_NO_CHECK_DEFAULT_def
        OCSP_SOFT_FAIL_DEFAULT_def)
qed

text \<open>Only the cleanup takes the \<open>SSL_CTX\<close> out of a context.\<close>

lemma setAlpnProtos_ctx: "setAlpnProtos malloc_ok realloc_ok protos behaviour c = Inr (c', calls) \<Longrightarrow> c_ctx c' = c_ctx c"
  by (auto simp: setAlpnProtos_def Let_def elim!: run_bind_InrE split: if_split_asm)

lemma load_slot_ctx:
  "load_slot env cert_file key_file i answers cb c = Inr (ok, c', cb', calls) \<Longrightarrow> c_ctx c' = c_ctx c"
  by (auto simp: load_slot_def Let_def set_slot_def elim!: run_bind_InrE split: if_split_asm option.split_asm)

lemma setCertificate_ctx:
  "setCertificate env x cert key password idx answers cb c = Inr r \<Longrightarrow> c_ctx (cr_ctxt r) = c_ctx c"
  by (cases password; cases key; cases cert)
    (auto simp: setCertificate_def Let_def elim!: run_bind_InrE dest!: load_slot_ctx split: if_split_asm prod.split_asm)

lemma setCertificateRaw_ctx: "c_ctx (fst (snd (setCertificateRaw x cert evp idx c))) = c_ctx c"
  by (auto simp: setCertificateRaw_def Let_def split: prod.splits)

lemma ctx_exec_ctx:
  assumes "ctx_exec op c = Inr c'" and "op \<noteq> Cleanup"
  shows "c_ctx c' = c_ctx c"
proof (cases op)
  case (Set_Alpn_Protos malloc_ok realloc_ok protos behaviour)
  then show ?thesis using assms(1) setAlpnProtos_ctx by (auto elim!: run_bind_InrE)
next
  case (Set_Certificate env x cert key password idx answers cb)
  then show ?thesis using assms(1) setCertificate_ctx by (auto elim!: run_bind_InrE)
next
  case (Set_Certificate_Raw x cert key idx)
  then show ?thesis using assms(1) setCertificateRaw_ctx by auto
next
  case (Set_CA_Revocation env f path)
  then show ?thesis
    using assms(1) by (auto simp: setCARevocation_def Let_def split: prod.splits)
next
  case (Set_CA_Certificate env f path)
  then show ?thesis using assms(1) by (auto simp: setCACertificate_def Let_def)
qed (use assms in \<open>auto simp: setContextId_def setBIO_def setShutdownType_def set_verify_fields_def Let_def SSLConf_assign_def
    setRandom_def setALPN_def setCertVerifyCallback_def elim!: run_bind_InrE split: option.splits\<close>)

lemma cleanup_typed: "ctx_typed c \<Longrightarrow> ctx_typed (fst (ssl_context_cleanup c))"
  using ctx_exec_typed [of c Cleanup] by simp

lemma set_verify_fields_typed: "ctx_typed c \<Longrightarrow> ctx_typed (set_verify_fields store level depth c)"
  using ctx_exec_typed [of c "Set_Verify store level depth"] by simp

section \<open>The type of a context\<close>


definition typed_ops :: "ctx_op list" where
  "typed_ops =
     [Set_Alpn_Protos True (\<lambda>_. True) (Some (map Some [[104, 50]])) 0, Set_Verifier (Some (Some 3, 7)),
      Set_Certificate_Raw sample_ctx_env (Some 5) (Some 6) 3, Set_Verify None 2 0,
      Assign sample_conf_env 4 0 [(Some NO_OCSP_CHECK, Some (ascii ''false''))]]"


end
