(* ===== verification/Lifecycle.thy ===== *)
theory Lifecycle
  imports Ssl_Conn Tcn_Library Pool_Tree Context_Types
begin

text \<open>
  The native objects that Java holds, together: pools (\<^verbatim>\<open>native/src/pool.c\<close>), the contexts
  made in them (\<^verbatim>\<open>native/src/sslcontext.c\<close>), and the connections of each context
  (\<^verbatim>\<open>native/src/ssl.c\<close>), with the references that OpenSSL counts for each \<open>SSL_CTX\<close>.

  The single operations are those of \<open>Ssl_Context\<close>, \<open>Ssl_Conn\<close> and \<open>Ocsp_Verify\<close>; here is
  what they reach through the pointers between the objects: a connection's record lives in a
  pool that is a child of the pool of its context, the context's record in that pool, and the
  \<open>SSL\<close> holds both addresses as application data and a reference to the \<open>SSL_CTX\<close>. A use of
  a record whose pool is gone is the fault \<open>Use_After_Free\<close>.

  A handle is an index into the list of all objects ever made, so that it is never used again.
  Pools form a tree (\<open>Pool_Tree\<close>).
\<close>

section \<open>State\<close>

text \<open>\<open>sl_registered\<close>: \<open>ssl_context_cleanup\<close> is registered with the pool.\<close>

record ctx_slot =
  sl_pool :: nat
  sl_registered :: bool
  sl_ctxt :: tcn_ssl_ctxt_t

text \<open>\<open>cl_ctx\<close> is the context's index, \<open>cl_ssl_ctx\<close> the \<open>SSL_CTX\<close> that the \<open>SSL\<close> refers to.\<close>

record client =
  cl_ctx :: nat
  cl_ssl_ctx :: ptr
  cl_conn :: conn_state

record world =
  wd_global :: bool
  wd_pools :: "jpool list"
  wd_ctxs :: "ctx_slot list"
  wd_conns :: "client list"
  wd_next :: ptr
  wd_refs :: "ptr \<Rightarrow> nat"

definition world_start :: world where
  "world_start = \<lparr>wd_global = False, wd_pools = [], wd_ctxs = [], wd_conns = [], wd_next = 1, wd_refs = \<lambda>_. 0\<rparr>"

definition pool_alive :: "world \<Rightarrow> nat \<Rightarrow> bool" where
  "pool_alive w q \<longleftrightarrow> q < length (wd_pools w) \<and> jp_live (wd_pools w ! q)"

text \<open>The memory of the record of a context.\<close>

definition ctx_alive :: "world \<Rightarrow> nat \<Rightarrow> bool" where
  "ctx_alive w k \<longleftrightarrow> k < length (wd_ctxs w) \<and> pool_alive w (sl_pool (wd_ctxs w ! k))"

definition conn_alive :: "world \<Rightarrow> nat \<Rightarrow> bool" where
  "conn_alive w j \<longleftrightarrow> j < length (wd_conns w) \<and> cs_ssl_live (cl_conn (wd_conns w ! j))"

lemma alive_update [simp]:
  "pool_alive (w\<lparr>wd_ctxs := sls\<rparr>) q = pool_alive w q"
  "pool_alive (w\<lparr>wd_conns := cls\<rparr>) q = pool_alive w q"
  "pool_alive (w\<lparr>wd_refs := refs\<rparr>) q = pool_alive w q"
  "pool_alive (w\<lparr>wd_next := n\<rparr>) q = pool_alive w q"
  "pool_alive (w\<lparr>wd_global := b\<rparr>) q = pool_alive w q"
  "ctx_alive (w\<lparr>wd_conns := cls\<rparr>) k = ctx_alive w k"
  "ctx_alive (w\<lparr>wd_refs := refs\<rparr>) k = ctx_alive w k"
  "ctx_alive (w\<lparr>wd_next := n\<rparr>) k = ctx_alive w k"
  "ctx_alive (w\<lparr>wd_global := b\<rparr>) k = ctx_alive w k"
  by (simp_all add: pool_alive_def ctx_alive_def)

definition the_ctx :: "nat \<Rightarrow> world \<Rightarrow> tcn_ssl_ctxt_t run" where
  "the_ctx k w = (if ctx_alive w k then Inr (sl_ctxt (wd_ctxs w ! k)) else Inl Use_After_Free)"

definition the_client :: "nat \<Rightarrow> world \<Rightarrow> client run" where
  "the_client j w = (if conn_alive w j then Inr (wd_conns w ! j) else Inl Use_After_Free)"

definition put_ctx :: "nat \<Rightarrow> tcn_ssl_ctxt_t \<Rightarrow> world \<Rightarrow> world" where
  "put_ctx k c w = w\<lparr>wd_ctxs := (wd_ctxs w)[k := (wd_ctxs w ! k)\<lparr>sl_ctxt := c\<rparr>]\<rparr>"

definition put_conn :: "nat \<Rightarrow> conn_state \<Rightarrow> world \<Rightarrow> world" where
  "put_conn j s w = w\<lparr>wd_conns := (wd_conns w)[j := (wd_conns w ! j)\<lparr>cl_conn := s\<rparr>]\<rparr>"

section \<open>References to the OpenSSL contexts\<close>

definition unref :: "ptr \<Rightarrow> (ptr \<Rightarrow> nat) \<Rightarrow> (ptr \<Rightarrow> nat) run" where
  "unref p refs = (if refs p = 0 then Inl Bad_Free else Inr (refs(p := refs p - 1)))"

text \<open>What the calls of a context operation do to the references.\<close>

fun ref_effects :: "call list \<Rightarrow> (ptr \<Rightarrow> nat) \<Rightarrow> (ptr \<Rightarrow> nat) run" where
  "ref_effects [] refs = Inr refs"
| "ref_effects (SSL_CTX_free p # calls) refs = run_bind (unref p refs) (ref_effects calls)"
| "ref_effects (_ # calls) refs = ref_effects calls refs"

section \<open>Pools\<close>

text \<open>Without a parent the global pool is taken, which may be NULL.\<close>

definition new_pool :: "bool \<Rightarrow> pool_parent \<Rightarrow> world \<Rightarrow> world" where
  "new_pool ok par w =
     (if ok then w\<lparr>wd_pools := wd_pools w @ [\<lparr>jp_live = True, jp_parent = par\<rparr>]\<rparr> else w)"

definition w_pool_create :: "bool \<Rightarrow> nat option \<Rightarrow> world \<Rightarrow> world run" where
  "w_pool_create ok parent w =
     (case parent of
        None \<Rightarrow> Inr (new_pool ok (if wd_global w then Global_Parent else No_Parent) w)
      | Some p \<Rightarrow> if pool_alive w p then Inr (new_pool ok (Parent p) w) else Inl Use_After_Free)"

text \<open>
  \<open>apr_pool_destroy\<close> on a pool of Java: first the child pools, those that Java made (in
  \<open>w_pool_destroy\<close> below) and those of the connections, then the cleanups of the pool, those of
  the contexts. (APR goes through children and cleanups
  from the last to the first; they do not depend on one another.)
\<close>

primrec lose_conns :: "(client \<Rightarrow> bool) \<Rightarrow> client list \<Rightarrow> client list run" where
  "lose_conns P [] = Inr []"
| "lose_conns P (cl # cls) =
     run_bind (if P cl then destroy_parent (cl_conn cl) else Inr (cl_conn cl)) (\<lambda>s.
     run_bind (lose_conns P cls) (\<lambda>cls. Inr (cl\<lparr>cl_conn := s\<rparr> # cls)))"

primrec lose_ctxs :: "nat \<Rightarrow> ctx_slot list \<Rightarrow> (ptr \<Rightarrow> nat) \<Rightarrow> (ctx_slot list \<times> (ptr \<Rightarrow> nat)) run" where
  "lose_ctxs q [] refs = Inr ([], refs)"
| "lose_ctxs q (sl # sls) refs =
     (let (c, calls) = (if sl_pool sl = q \<and> sl_registered sl then ssl_context_cleanup (sl_ctxt sl) else (sl_ctxt sl, [])) in
      run_bind (ref_effects calls refs) (\<lambda>refs.
      run_bind (lose_ctxs q sls refs) (\<lambda>(sls, refs).
      Inr (sl\<lparr>sl_registered := sl_registered sl \<and> sl_pool sl \<noteq> q, sl_ctxt := c\<rparr> # sls, refs))))"

definition destroy_jpool :: "nat \<Rightarrow> world \<Rightarrow> world run" where
  "destroy_jpool q w =
     (if \<not> pool_alive w q then Inl Use_After_Free
      else
        run_bind (lose_conns (\<lambda>cl. sl_pool (wd_ctxs w ! cl_ctx cl) = q) (wd_conns w)) (\<lambda>conns.
        run_bind (lose_ctxs q (wd_ctxs w) (wd_refs w)) (\<lambda>(ctxs, refs).
        Inr (w\<lparr>wd_conns := conns, wd_ctxs := ctxs, wd_refs := refs,
               wd_pools := (wd_pools w)[q := (wd_pools w ! q)\<lparr>jp_live := False\<rparr>]\<rparr>))))"

text \<open>\<open>Pool.destroy\<close> does nothing when there is no global pool.\<close>

definition w_pool_destroy :: "nat \<Rightarrow> world \<Rightarrow> world run" where
  "w_pool_destroy q w =
     (if \<not> wd_global w then Inr w
      else if \<not> pool_alive w q then Inl Use_After_Free
      else run_ops destroy_jpool (subtree (wd_pools w) q) w)"

definition w_lib_init :: "bool \<Rightarrow> world \<Rightarrow> world" where
  "w_lib_init pool_ok w = (if wd_global w then w else w\<lparr>wd_global := pool_ok\<rparr>)"

text \<open>\<open>Library.terminate\<close> destroys the global pool, and with it the pools below it.\<close>

definition w_lib_term :: "world \<Rightarrow> world run" where
  "w_lib_term w =
     (if wd_global w then run_ops destroy_jpool (below_global (wd_pools w)) (w\<lparr>wd_global := False\<rparr>) else Inr w)"

section \<open>Contexts and connections\<close>

text \<open>
  \<open>SSLContext.make\<close> in the pool \<open>q\<close>. A new \<open>SSL_CTX\<close> gets an address that is not in use.
\<close>

definition w_make :: "nat \<Rightarrow> make_env \<Rightarrow> 32 word \<Rightarrow> int \<Rightarrow> world \<Rightarrow> world run" where
  "w_make q env protocol mode w =
     (let env = env\<lparr>m_ctx_new := \<lambda>m. map_option (\<lambda>_. wd_next w) (m_ctx_new env m)\<rparr> in
      if \<not> pool_alive w q then Inl Use_After_Free
      else
        (case fst (SSLContext_make env protocol mode) of
           None \<Rightarrow> Inr (w\<lparr>wd_next := wd_next w + 1\<rparr>)
         | Some c \<Rightarrow>
             Inr (w\<lparr>wd_ctxs := wd_ctxs w @ [\<lparr>sl_pool = q, sl_registered = True, sl_ctxt = c\<rparr>],
                    wd_refs := (wd_refs w)(wd_next w := 1), wd_next := wd_next w + 1\<rparr>)))"

text \<open>\<open>SSLContext.free\<close> runs the cleanup and takes it off the pool; the record stays.\<close>

definition w_ctx_free :: "nat \<Rightarrow> world \<Rightarrow> world run" where
  "w_ctx_free k w =
     run_bind (the_ctx k w) (\<lambda>c.
     let (c, calls) = SSLContext_free c in
     run_bind (ref_effects calls (wd_refs w)) (\<lambda>refs.
     Inr (w\<lparr>wd_ctxs := (wd_ctxs w)[k := (wd_ctxs w ! k)\<lparr>sl_registered := False, sl_ctxt := c\<rparr>], wd_refs := refs\<rparr>)))"

text \<open>\<open>SSL_new\<close> makes a reference to the \<open>SSL_CTX\<close>; it returns NULL for NULL.\<close>

definition w_new_ssl :: "nat \<Rightarrow> new_env \<Rightarrow> bool \<Rightarrow> world \<Rightarrow> world run" where
  "w_new_ssl k env server w =
     run_bind (the_ctx k w) (\<lambda>c.
     let env = (if c_ctx c = None then env\<lparr>w_ssl_new := None\<rparr> else env) in
     run_bind (newSSL env server c) (\<lambda>(s, evs).
     case s of
       None \<Rightarrow> Inr w
     | Some s \<Rightarrow>
         (let p = the (c_ctx c) in
          Inr (w\<lparr>wd_conns := wd_conns w @ [\<lparr>cl_ctx = k, cl_ssl_ctx = p, cl_conn = s\<rparr>],
                 wd_refs := (wd_refs w)(p := wd_refs w p + 1)\<rparr>))))"

definition w_free_ssl :: "nat \<Rightarrow> world \<Rightarrow> world run" where
  "w_free_ssl j w =
     run_bind (the_client j w) (\<lambda>cl.
     run_bind (freeSSL (cl_conn cl)) (\<lambda>s.
     run_bind (unref (cl_ssl_ctx cl) (wd_refs w)) (\<lambda>refs.
     Inr (put_conn j s (w\<lparr>wd_refs := refs\<rparr>)))))"

section \<open>Connections in use\<close>

definition w_info :: "nat \<Rightarrow> 32 word \<Rightarrow> world \<Rightarrow> world run" where
  "w_info j wh w =
     run_bind (the_client j w) (\<lambda>cl.
     run_bind (ssl_info_callback wh (cl_conn cl)) (\<lambda>s. Inr (put_conn j s w)))"

definition w_post_handshake :: "nat \<Rightarrow> int \<Rightarrow> world \<Rightarrow> world run" where
  "w_post_handshake j res w =
     run_bind (the_client j w) (\<lambda>cl.
     run_bind (verifyClientPostHandshake res (Some (cl_conn cl))) (\<lambda>(rv, s). Inr (put_conn j (the s) w)))"

text \<open>
  The verification callback finds the connection's record as application data of the \<open>SSL\<close>,
  and the context's record in it.
\<close>

definition w_verify ::
  "nat \<Rightarrow> ('c, 'r) ocsp_ssl \<Rightarrow> bool \<Rightarrow> 'c store_ctx \<Rightarrow> world \<Rightarrow> world run" where
  "w_verify j ssl ok ctx w =
     run_bind (the_client j w) (\<lambda>cl.
     run_bind (the_conn (Some (cl_conn cl))) (\<lambda>_.
     run_bind (the_ctx (cl_ctx cl) w) (\<lambda>c.
     run_bind (SSL_callback_SSL_verify ssl c (cs_con (cl_conn cl)) ok ctx) (\<lambda>res.
     Inr (put_conn j ((cl_conn cl)\<lparr>cs_con := vr_con res\<rparr>) w)))))"

text \<open>
  \<open>SSL.setVerify\<close> finds the context as application data. It asks the context's \<open>SSL_CTX\<close> for
  the store if it has none, and must not ask NULL.
\<close>

definition w_set_verify :: "nat \<Rightarrow> ptr option \<Rightarrow> int \<Rightarrow> int \<Rightarrow> world \<Rightarrow> world run" where
  "w_set_verify j cert_store level depth w =
     run_bind (the_client j w) (\<lambda>cl.
     run_bind (the_ctx (cl_ctx cl) w) (\<lambda>c.
     if c_store c = None \<and> c_ctx c = None then Inl Null_Deref
     else Inr (put_ctx (cl_ctx cl) (the (fst (SSL_setVerify cert_store False level depth (Some c)))) w)))"

text \<open>Any other operation on a context, from \<open>Context_Types\<close>.\<close>

definition w_setting :: "nat \<Rightarrow> ctx_op \<Rightarrow> world \<Rightarrow> world run" where
  "w_setting k op w =
     run_bind (the_ctx k w) (\<lambda>c.
     run_bind (ctx_exec op c) (\<lambda>c. Inr (put_ctx k c w)))"

section \<open>Sequences of operations\<close>

datatype ('c, 'r) world_op =
    Op_Init bool
  | Op_Term
  | Op_Pool_Create bool "nat option"
  | Op_Pool_Destroy nat
  | Op_Make nat make_env "32 word" int
  | Op_Ctx_Free nat
  | Op_New nat new_env bool
  | Op_Free nat
  | Op_Info nat "32 word"
  | Op_Post_Handshake nat int
  | Op_Verify nat "('c, 'r) ocsp_ssl" bool "'c store_ctx"
  | Op_Set_Verify nat "ptr option" int int
  | Op_Setting nat ctx_op

fun world_exec :: "('c, 'r) world_op \<Rightarrow> world \<Rightarrow> world run" where
  "world_exec (Op_Init ok) w = Inr (w_lib_init ok w)"
| "world_exec Op_Term w = w_lib_term w"
| "world_exec (Op_Pool_Create ok parent) w = w_pool_create ok parent w"
| "world_exec (Op_Pool_Destroy q) w = w_pool_destroy q w"
| "world_exec (Op_Make q env protocol mode) w = w_make q env protocol mode w"
| "world_exec (Op_Ctx_Free k) w = w_ctx_free k w"
| "world_exec (Op_New k env server) w = w_new_ssl k env server w"
| "world_exec (Op_Free j) w = w_free_ssl j w"
| "world_exec (Op_Info j wh) w = w_info j wh w"
| "world_exec (Op_Post_Handshake j res) w = w_post_handshake j res w"
| "world_exec (Op_Verify j ssl ok ctx) w = w_verify j ssl ok ctx w"
| "world_exec (Op_Set_Verify j store level depth) w = w_set_verify j store level depth w"
| "world_exec (Op_Setting k op) w = w_setting k op w"

text \<open>
  The discipline for the caller: pools are made below live pools, and destroyed once, and only
  before the pools above them; contexts are made in live pools; a context is used while its
  pool exists, a connection until it is freed, and as long as the pool of its context exists for everything
  but \<open>freeSSL\<close> and the counting of handshakes; \<open>setVerify\<close> and the settings of a context moreover only
  while the context has not been freed (its cleanup is \<open>Op_Ctx_Free\<close>, never a setting). \<open>newSSL\<close> does not test the results of \<open>malloc\<close>, and needs the indices
  of the application data to store its counters; a counter of handshakes must not overflow; and
  the verification callback can fail on its own (see \<open>Ocsp_Verify\<close>).
\<close>

fun legal :: "world \<Rightarrow> ('c, 'r) world_op \<Rightarrow> bool" where
  "legal w (Op_Pool_Create ok parent) \<longleftrightarrow> (case parent of None \<Rightarrow> True | Some p \<Rightarrow> pool_alive w p)"
| "legal w (Op_Pool_Destroy q) \<longleftrightarrow> pool_alive w q \<or> \<not> wd_global w"
| "legal w (Op_Make q env protocol mode) \<longleftrightarrow> pool_alive w q \<and> length (m_sha1 env SSL_DEFAULT_VHOST_NAME) = 20"
| "legal w (Op_Ctx_Free k) \<longleftrightarrow> ctx_alive w k"
| "legal w (Op_New k env server) \<longleftrightarrow> ctx_alive w k \<and> w_malloc1 env \<and> w_malloc2 env \<and>
     w_idx3 env \<and> w_idx4 env"
| "legal w (Op_Free j) \<longleftrightarrow> conn_alive w j"
| "legal w (Op_Info j wh) \<longleftrightarrow> conn_alive w j \<and> cs_handshakeCount (cl_conn (wd_conns w ! j)) \<noteq> Some (2 ^ 31 - 1)"
| "legal w (Op_Post_Handshake j res) \<longleftrightarrow> conn_alive w j \<and> ctx_alive w (cl_ctx (wd_conns w ! j))"
| "legal w (Op_Verify j ssl ok ctx) \<longleftrightarrow> conn_alive w j \<and> ctx_alive w (cl_ctx (wd_conns w ! j)) \<and>
     safe (SSL_callback_SSL_verify ssl (sl_ctxt (wd_ctxs w ! cl_ctx (wd_conns w ! j)))
       (cs_con (cl_conn (wd_conns w ! j))) ok ctx)"
| "legal w (Op_Set_Verify j store level depth) \<longleftrightarrow> conn_alive w j \<and> ctx_alive w (cl_ctx (wd_conns w ! j)) \<and>
     c_ctx (sl_ctxt (wd_ctxs w ! cl_ctx (wd_conns w ! j))) \<noteq> None"
| "legal w (Op_Setting k op) \<longleftrightarrow> ctx_alive w k \<and> c_ctx (sl_ctxt (wd_ctxs w ! k)) \<noteq> None \<and> ctx_good op \<and> op \<noteq> Cleanup"
| "legal w _ \<longleftrightarrow> True"

definition world_run :: "('c, 'r) world_op list \<Rightarrow> world \<Rightarrow> world run" where
  "world_run = run_ops world_exec"

section \<open>The invariant\<close>

text \<open>
  A live connection still has its pool exactly when its context has; a freed one is released
  completely.
\<close>

definition conn_fits :: "world \<Rightarrow> client \<Rightarrow> bool" where
  "conn_fits w cl \<longleftrightarrow> cl_ctx cl < length (wd_ctxs w) \<and>
     (if cs_ssl_live (cl_conn cl)
      then conn_ok (cl_conn cl) \<and> (cs_pool_live (cl_conn cl) \<longleftrightarrow> ctx_alive w (cl_ctx cl))
      else conn_gone (cl_conn cl))"

definition slot_fits :: "world \<Rightarrow> ctx_slot \<Rightarrow> bool" where
  "slot_fits w sl \<longleftrightarrow> sl_pool sl < length (wd_pools w) \<and>
     (sl_registered sl \<longleftrightarrow> c_ctx (sl_ctxt sl) \<noteq> None) \<and>
     (sl_registered sl \<longrightarrow> pool_alive w (sl_pool sl))"

text \<open>The holders of an \<open>SSL_CTX\<close>: contexts and live connections.\<close>

definition ctx_holders :: "ptr \<Rightarrow> ctx_slot list \<Rightarrow> nat" where
  "ctx_holders p sls = length (filter (\<lambda>sl. c_ctx (sl_ctxt sl) = Some p) sls)"

definition conn_holders :: "ptr \<Rightarrow> client list \<Rightarrow> nat" where
  "conn_holders p cls = length (filter (\<lambda>cl. cs_ssl_live (cl_conn cl) \<and> cl_ssl_ctx cl = p) cls)"

definition refs_exact :: "world \<Rightarrow> bool" where
  "refs_exact w \<longleftrightarrow> (\<forall>p. wd_refs w p = ctx_holders p (wd_ctxs w) + conn_holders p (wd_conns w))"

definition world_ok :: "world \<Rightarrow> bool" where
  "world_ok w \<longleftrightarrow> (\<forall>cl \<in> set (wd_conns w). conn_fits w cl) \<and> (\<forall>sl \<in> set (wd_ctxs w). slot_fits w sl) \<and>
     refs_exact w \<and> (\<forall>p \<ge> wd_next w. wd_refs w p = 0)"

lemma world_ok_start: "world_ok world_start"
  by (simp add: world_ok_def world_start_def refs_exact_def ctx_holders_def conn_holders_def)

lemma length_filter_update:
  "i < length xs \<Longrightarrow>
   length (filter P (xs[i := x])) + of_bool (P (xs ! i)) = length (filter P xs) + of_bool (P x)"
proof (induction xs arbitrary: i)
  case (Cons y ys)
  then show ?case by (cases i) auto
qed simp

lemma conn_holders_update:
  "j < length cls \<Longrightarrow> cs_ssl_live s = cs_ssl_live (cl_conn (cls ! j)) \<Longrightarrow>
   conn_holders p (cls[j := (cls ! j)\<lparr>cl_conn := s\<rparr>]) = conn_holders p cls"
  using length_filter_update [of j cls "\<lambda>cl. cs_ssl_live (cl_conn cl) \<and> cl_ssl_ctx cl = p" "(cls ! j)\<lparr>cl_conn := s\<rparr>"]
  by (simp add: conn_holders_def)

lemma conn_holders_release:
  "j < length cls \<Longrightarrow> cs_ssl_live (cl_conn (cls ! j)) \<Longrightarrow> \<not> cs_ssl_live s \<Longrightarrow>
   conn_holders p (cls[j := (cls ! j)\<lparr>cl_conn := s\<rparr>]) + of_bool (cl_ssl_ctx (cls ! j) = p) = conn_holders p cls"
  using length_filter_update [of j cls "\<lambda>cl. cs_ssl_live (cl_conn cl) \<and> cl_ssl_ctx cl = p" "(cls ! j)\<lparr>cl_conn := s\<rparr>"]
  by (simp add: conn_holders_def)

lemma ctx_holders_update:
  "k < length sls \<Longrightarrow> c_ctx (sl_ctxt sl) = c_ctx (sl_ctxt (sls ! k)) \<Longrightarrow>
   ctx_holders p (sls[k := sl]) = ctx_holders p sls"
  using length_filter_update [of k sls "\<lambda>sl. c_ctx (sl_ctxt sl) = Some p" sl]
  by (simp add: ctx_holders_def)

lemma ctx_holders_release:
  "k < length sls \<Longrightarrow> c_ctx (sl_ctxt sl) = None \<Longrightarrow>
   ctx_holders p (sls[k := sl]) + of_bool (c_ctx (sl_ctxt (sls ! k)) = Some p) = ctx_holders p sls"
  using length_filter_update [of k sls "\<lambda>sl. c_ctx (sl_ctxt sl) = Some p" sl]
  by (simp add: ctx_holders_def)

section \<open>The destruction of a pool\<close>

definition lost :: "conn_state \<Rightarrow> conn_state" where
  "lost s = (if cs_pool_live s then s\<lparr>cs_destroyCount := Some 1, cs_pool_live := False, cs_destroyed := 1\<rparr> else s)"

lemma lost_ok:
  "conn_ok s \<Longrightarrow> conn_ok (lost s)" "conn_gone s \<Longrightarrow> lost s = s"
  "\<not> cs_pool_live (lost s)" "cs_ssl_live (lost s) = cs_ssl_live s"
  by (auto simp: lost_def conn_ok_def conn_gone_def)

lemma destroy_parent_lost: "conn_ok s \<or> conn_gone s \<Longrightarrow> destroy_parent s = Inr (lost s)"
  by (auto simp: lost_def conn_ok_def conn_gone_def destroy_parent_def destroy_conn_pool_def ssl_con_pool_cleanup_def)

lemma lose_conns_lost:
  "(\<And>cl. cl \<in> set cls \<Longrightarrow> conn_ok (cl_conn cl) \<or> conn_gone (cl_conn cl)) \<Longrightarrow>
   lose_conns P cls = Inr (map (\<lambda>cl. if P cl then cl\<lparr>cl_conn := lost (cl_conn cl)\<rparr> else cl) cls)"
  by (induction cls) (simp_all add: destroy_parent_lost)

lemma ref_effects_append:
  "ref_effects (calls @ calls') refs = run_bind (ref_effects calls refs) (ref_effects calls')"
proof (induction calls refs rule: ref_effects.induct)
  case (2 p calls refs)
  then show ?case by (cases "unref p refs") auto
qed auto

lemma ref_effects_other:
  "ref_effects (free_pairs xs ks) refs = Inr refs"
  "ref_effects (free_opt SSL_BIO_close b) refs = Inr refs"
  "ref_effects (free_opt Delete_Global_Ref b) refs = Inr refs"
proof -
  show "ref_effects (free_pairs xs ks) refs = Inr refs"
    by (induction xs ks rule: free_pairs.induct)
      (auto simp: ref_effects_append free_opt_def split: option.split)
qed (simp_all add: free_opt_def split: option.split)

lemma cleanup_ref_effects:
  "ref_effects (snd (ssl_context_cleanup c)) refs = (case c_ctx c of None \<Rightarrow> Inr refs | Some p \<Rightarrow> unref p refs)"
  by (auto simp: ssl_context_cleanup_def ref_effects_append ref_effects_other free_opt_def unref_def
      split: option.split)

lemma cleanup_ctx: "c_ctx (fst (ssl_context_cleanup c)) = None"
  by (simp add: ssl_context_cleanup_def)

definition cleaned :: "nat \<Rightarrow> ctx_slot \<Rightarrow> ctx_slot" where
  "cleaned q sl =
     (if sl_pool sl = q
      then sl\<lparr>sl_registered := False,
              sl_ctxt := (if sl_registered sl then fst (ssl_context_cleanup (sl_ctxt sl)) else sl_ctxt sl)\<rparr>
      else sl)"

definition in_pool :: "nat \<Rightarrow> ctx_slot list \<Rightarrow> ctx_slot list" where
  "in_pool q sls = filter (\<lambda>sl. sl_pool sl = q) sls"

lemma lose_ctxs_cleaned:
  assumes "\<And>sl. sl \<in> set sls \<Longrightarrow> sl_registered sl \<longleftrightarrow> c_ctx (sl_ctxt sl) \<noteq> None"
    and "\<And>p. ctx_holders p (in_pool q sls) \<le> refs p"
  shows "lose_ctxs q sls refs = Inr (map (cleaned q) sls, \<lambda>p. refs p - ctx_holders p (in_pool q sls))"
  using assms
proof (induction sls arbitrary: refs)
  case Nil
  then show ?case by (simp add: in_pool_def ctx_holders_def)
next
  case (Cons sl sls)
  let ?n = "\<lambda>p. ctx_holders p (in_pool q sls)"
  have reg: "sl_registered sl \<longleftrightarrow> c_ctx (sl_ctxt sl) \<noteq> None" by (rule Cons.prems(1)) simp
  have rest: "lose_ctxs q sls refs = Inr (map (cleaned q) sls, \<lambda>p. refs p - ?n p)"
    if "\<And>p. ?n p \<le> refs p" for refs
    using that Cons.prems(1) by (intro Cons.IH) auto
  show ?case
  proof (cases "sl_pool sl = q \<and> sl_registered sl")
    case True
    then obtain x where x: "c_ctx (sl_ctxt sl) = Some x" using reg by auto
    have n: "ctx_holders p (in_pool q (sl # sls)) = ?n p + of_bool (p = x)" for p
      using True x by (auto simp: in_pool_def ctx_holders_def)
    have le: "?n p + of_bool (p = x) \<le> refs p" for p using Cons.prems(2) [of p] by (simp add: n)
    define refs' where "refs' = refs(x := refs x - 1)"
    have "refs x \<noteq> 0" using le [of x] by simp
    then have u: "unref x refs = Inr refs'" by (simp add: unref_def refs'_def)
    have "?n p \<le> refs' p" for p using le [of p] by (cases "p = x") (auto simp: refs'_def)
    note r = rest [OF this]
    have "(\<lambda>p. refs' p - ?n p) = (\<lambda>p. refs p - ctx_holders p (in_pool q (sl # sls)))"
      using le by (auto simp: n fun_eq_iff refs'_def)
    then show ?thesis
      using True x u r cleanup_ref_effects [of "sl_ctxt sl" refs]
      by (simp add: case_prod_unfold cleaned_def)
  next
    case False
    have n: "ctx_holders p (in_pool q (sl # sls)) = ?n p" for p
      using False reg by (auto simp: in_pool_def ctx_holders_def)
    have "?n p \<le> refs p" for p using Cons.prems(2) [of p] by (simp add: n)
    note r = rest [OF this]
    have "cleaned q sl = sl\<lparr>sl_registered := sl_registered sl \<and> sl_pool sl \<noteq> q, sl_ctxt := sl_ctxt sl\<rparr>"
      using False by (auto simp: cleaned_def)
    then show ?thesis using False r by (auto simp: n)
  qed
qed

text \<open>The world without the pool.\<close>

definition without_pool :: "nat \<Rightarrow> world \<Rightarrow> world" where
  "without_pool q w = w\<lparr>
     wd_conns := map (\<lambda>cl. if sl_pool (wd_ctxs w ! cl_ctx cl) = q then cl\<lparr>cl_conn := lost (cl_conn cl)\<rparr> else cl) (wd_conns w),
     wd_ctxs := map (cleaned q) (wd_ctxs w),
     wd_refs := (\<lambda>p. wd_refs w p - ctx_holders p (in_pool q (wd_ctxs w))),
     wd_pools := (wd_pools w)[q := (wd_pools w ! q)\<lparr>jp_live := False\<rparr>]\<rparr>"

lemma ctx_holders_split:
  "ctx_holders p sls = ctx_holders p (in_pool q sls) + length (filter (\<lambda>sl. c_ctx (sl_ctxt sl) = Some p \<and> sl_pool sl \<noteq> q) sls)"
  by (induction sls) (auto simp: ctx_holders_def in_pool_def)

lemma ctx_holders_cleaned:
  "(\<And>sl. sl \<in> set sls \<Longrightarrow> sl_registered sl \<longleftrightarrow> c_ctx (sl_ctxt sl) \<noteq> None) \<Longrightarrow>
   ctx_holders p (map (cleaned q) sls) = length (filter (\<lambda>sl. c_ctx (sl_ctxt sl) = Some p \<and> sl_pool sl \<noteq> q) sls)"
proof (induction sls)
  case (Cons sl sls)
  have "sl_registered sl \<longleftrightarrow> c_ctx (sl_ctxt sl) \<noteq> None" by (rule Cons.prems) simp
  then have "c_ctx (sl_ctxt (cleaned q sl)) = Some p \<longleftrightarrow> c_ctx (sl_ctxt sl) = Some p \<and> sl_pool sl \<noteq> q"
    by (auto simp: cleaned_def cleanup_ctx)
  then show ?case using Cons.IH Cons.prems by (simp add: ctx_holders_def)
qed (simp add: ctx_holders_def)

lemma conn_holders_lost:
  "conn_holders p (map (\<lambda>cl. if P cl then cl\<lparr>cl_conn := lost (cl_conn cl)\<rparr> else cl) cls) = conn_holders p cls"
  by (induction cls) (simp_all add: conn_holders_def lost_ok)

lemma sl_pool_cleaned [simp]: "sl_pool (cleaned q sl) = sl_pool sl"
  by (simp add: cleaned_def)

lemma without_pool_alive:
  "pool_alive (without_pool q w) r \<longleftrightarrow> pool_alive w r \<and> r \<noteq> q"
  "ctx_alive (without_pool q w) k \<longleftrightarrow> ctx_alive w k \<and> sl_pool (wd_ctxs w ! k) \<noteq> q"
  "conn_alive (without_pool q w) j \<longleftrightarrow> conn_alive w j"
  by (cases "q < length (wd_pools w)";
      auto simp: pool_alive_def ctx_alive_def conn_alive_def without_pool_def nth_list_update lost_ok split: if_splits)+

lemma without_pool_lengths [simp]:
  "length (wd_conns (without_pool q w)) = length (wd_conns w)"
  "length (wd_ctxs (without_pool q w)) = length (wd_ctxs w)"
  "length (wd_pools (without_pool q w)) = length (wd_pools w)"
  "wd_global (without_pool q w) = wd_global w"
  by (simp_all add: without_pool_def)

lemma world_okD:
  assumes "world_ok w"
  shows "cl \<in> set (wd_conns w) \<Longrightarrow> conn_fits w cl" "sl \<in> set (wd_ctxs w) \<Longrightarrow> slot_fits w sl"
    "wd_refs w p = ctx_holders p (wd_ctxs w) + conn_holders p (wd_conns w)"
    "wd_next w \<le> p \<Longrightarrow> wd_refs w p = 0"
    "cl \<in> set (wd_conns w) \<Longrightarrow> conn_ok (cl_conn cl) \<or> conn_gone (cl_conn cl)"
    "sl \<in> set (wd_ctxs w) \<Longrightarrow> sl_registered sl \<longleftrightarrow> c_ctx (sl_ctxt sl) \<noteq> None"
  using assms by (auto simp: world_ok_def refs_exact_def conn_fits_def slot_fits_def split: if_split_asm)

lemma destroy_jpool_result:
  assumes "world_ok w" and "pool_alive w q"
  shows "destroy_jpool q w = Inr (without_pool q w)"
proof -
  note ok = world_okD [OF assms(1)]
  have "ctx_holders p (in_pool q (wd_ctxs w)) \<le> wd_refs w p" for p
    unfolding ok(3) by (subst ctx_holders_split [of p "wd_ctxs w" q]) simp
  then have "lose_ctxs q (wd_ctxs w) (wd_refs w) =
      Inr (map (cleaned q) (wd_ctxs w), \<lambda>p. wd_refs w p - ctx_holders p (in_pool q (wd_ctxs w)))"
    by (intro lose_ctxs_cleaned ok(6))
  moreover note lose_conns_lost [of "wd_conns w" "\<lambda>cl. sl_pool (wd_ctxs w ! cl_ctx cl) = q", OF ok(5)]
  ultimately show ?thesis
    using assms(2) by (simp add: destroy_jpool_def without_pool_def)
qed

lemma without_pool_ok:
  assumes "world_ok w"
  shows "world_ok (without_pool q w)"
proof -
  note ok = world_okD [OF assms]
  have conns: "conn_fits (without_pool q w) cl'" if "cl' \<in> set (wd_conns (without_pool q w))" for cl'
  proof -
    have "cl' \<in> (\<lambda>cl. if sl_pool (wd_ctxs w ! cl_ctx cl) = q then cl\<lparr>cl_conn := lost (cl_conn cl)\<rparr> else cl) ` set (wd_conns w)"
      using that by (simp add: without_pool_def)
    then obtain cl
      where cl': "cl' = (if sl_pool (wd_ctxs w ! cl_ctx cl) = q then cl\<lparr>cl_conn := lost (cl_conn cl)\<rparr> else cl)"
        and cl: "cl \<in> set (wd_conns w)"
      by (rule imageE)
    show ?thesis
      using ok(1) [OF cl] lost_ok [of "cl_conn cl"]
      by (auto simp: cl' conn_fits_def without_pool_alive)
  qed
  have slots: "slot_fits (without_pool q w) sl'" if "sl' \<in> set (wd_ctxs (without_pool q w))" for sl'
  proof -
    have "sl' \<in> cleaned q ` set (wd_ctxs w)" using that by (simp add: without_pool_def)
    then obtain sl where sl': "sl' = cleaned q sl" and sl: "sl \<in> set (wd_ctxs w)" by (rule imageE)
    show ?thesis
      using ok(2) [OF sl] by (auto simp: sl' slot_fits_def without_pool_alive cleaned_def cleanup_ctx)
  qed
  have refs: "wd_refs (without_pool q w) p =
      ctx_holders p (wd_ctxs (without_pool q w)) + conn_holders p (wd_conns (without_pool q w))" for p
    using ok(3) [of p] ctx_holders_split [of p "wd_ctxs w" q] ctx_holders_cleaned [OF ok(6), of "wd_ctxs w" p q]
    by (simp add: without_pool_def conn_holders_lost)
  have "wd_refs (without_pool q w) p = 0" if "wd_next (without_pool q w) \<le> p" for p
    using ok(4) [of p] that by (simp add: without_pool_def)
  with conns slots refs show ?thesis by (simp add: world_ok_def refs_exact_def)
qed

section \<open>Every operation keeps the invariant\<close>

text \<open>A state of one connection is replaced.\<close>

lemma put_conn_ok:
  assumes ok: "world_ok w" and j: "conn_alive w j"
    and s: "conn_ok s" "cs_pool_live s = cs_pool_live (cl_conn (wd_conns w ! j))"
  shows "world_ok (put_conn j s w)"
proof -
  note w = world_okD [OF ok]
  let ?cl = "(wd_conns w ! j)\<lparr>cl_conn := s\<rparr>"
  have j': "j < length (wd_conns w)" "cs_ssl_live (cl_conn (wd_conns w ! j))" using j by (auto simp: conn_alive_def)
  have alive: "ctx_alive (put_conn j s w) k \<longleftrightarrow> ctx_alive w k" for k
    by (simp add: put_conn_def)
  have "conn_fits w ?cl"
    using w(1) [OF nth_mem [OF j'(1)]] j'(2) s by (auto simp: conn_fits_def conn_ok_def)
  then have "conn_fits w cl" if "cl \<in> set (wd_conns (put_conn j s w))" for cl
    using that w(1) set_update_subset_insert [of "wd_conns w" j ?cl] by (auto simp: put_conn_def)
  then have "conn_fits (put_conn j s w) cl" if "cl \<in> set (wd_conns (put_conn j s w))" for cl
    using that by (simp add: conn_fits_def alive) (simp add: put_conn_def)
  moreover have "cs_ssl_live s" using s(1) by (simp add: conn_ok_def)
  with j' have "conn_holders p (wd_conns (put_conn j s w)) = conn_holders p (wd_conns w)" for p
    by (simp add: put_conn_def conn_holders_update)
  ultimately show ?thesis
    using ok by (auto simp: world_ok_def refs_exact_def put_conn_def slot_fits_def pool_alive_def)
qed

lemma conn_okD:
  assumes "world_ok w" and "conn_alive w j"
  shows "conn_ok (cl_conn (wd_conns w ! j))"
    and "cs_pool_live (cl_conn (wd_conns w ! j)) \<longleftrightarrow> ctx_alive w (cl_ctx (wd_conns w ! j))"
    and "cl_ctx (wd_conns w ! j) < length (wd_ctxs w)"
  using world_okD(1) [OF assms(1), of "wd_conns w ! j"] assms(2)
  by (auto simp: conn_alive_def conn_fits_def)

lemma w_info_ok:
  "world_ok w \<Longrightarrow> conn_alive w j \<Longrightarrow> cs_handshakeCount (cl_conn (wd_conns w ! j)) \<noteq> Some (2 ^ 31 - 1) \<Longrightarrow>
   ensures (w_info j wh w) world_ok"
  using conn_okD(1) [of w j]
  by (auto simp: w_info_def the_client_def ssl_info_callback_def conn_ok_def intro!: put_conn_ok)

lemma w_post_handshake_ok:
  "world_ok w \<Longrightarrow> conn_alive w j \<Longrightarrow> ctx_alive w (cl_ctx (wd_conns w ! j)) \<Longrightarrow>
   ensures (w_post_handshake j res w) world_ok"
  using conn_okD(1,2) [of w j]
  by (auto simp: w_post_handshake_def the_client_def verifyClientPostHandshake_def the_conn_def conn_ok_def
      intro!: put_conn_ok)

lemma w_verify_ok:
  assumes "world_ok w" "conn_alive w j" "ctx_alive w (cl_ctx (wd_conns w ! j))"
    and "safe (SSL_callback_SSL_verify ssl (sl_ctxt (wd_ctxs w ! cl_ctx (wd_conns w ! j)))
      (cs_con (cl_conn (wd_conns w ! j))) ok ctx)"
  shows "ensures (w_verify j ssl ok ctx w) world_ok"
proof -
  obtain res where "SSL_callback_SSL_verify ssl (sl_ctxt (wd_ctxs w ! cl_ctx (wd_conns w ! j)))
      (cs_con (cl_conn (wd_conns w ! j))) ok ctx = Inr res"
    using assms(4) by (rule safeE)
  then show ?thesis
    using assms(1-3) conn_okD(1,2) [OF assms(1,2)]
    by (auto simp: w_verify_def the_client_def the_conn_def the_ctx_def conn_ok_def intro!: put_conn_ok)
qed

text \<open>The fields of a context change, except for its \<open>SSL_CTX\<close>.\<close>

lemma put_ctx_ok:
  assumes ok: "world_ok w" and k: "k < length (wd_ctxs w)" and c: "c_ctx c = c_ctx (sl_ctxt (wd_ctxs w ! k))"
  shows "world_ok (put_ctx k c w)"
proof -
  note w = world_okD [OF ok]
  let ?sl = "(wd_ctxs w ! k)\<lparr>sl_ctxt := c\<rparr>"
  have pool: "pool_alive (put_ctx k c w) q \<longleftrightarrow> pool_alive w q" for q
    by (simp add: put_ctx_def)
  have alive: "ctx_alive (put_ctx k c w) i \<longleftrightarrow> ctx_alive w i" for i
    using k by (cases "i = k") (simp_all add: ctx_alive_def put_ctx_def)
  have "slot_fits w ?sl"
    using w(2) [OF nth_mem [OF k]] c by (simp add: slot_fits_def)
  then have "slot_fits w sl" if "sl \<in> set (wd_ctxs (put_ctx k c w))" for sl
    using that w(2) set_update_subset_insert [of "wd_ctxs w" k ?sl] by (auto simp: put_ctx_def)
  then have "slot_fits (put_ctx k c w) sl" if "sl \<in> set (wd_ctxs (put_ctx k c w))" for sl
    using that by (simp add: slot_fits_def pool) (simp add: put_ctx_def)
  moreover have "ctx_holders p (wd_ctxs (put_ctx k c w)) = ctx_holders p (wd_ctxs w)" for p
    using k c by (simp add: put_ctx_def ctx_holders_update)
  moreover have "conn_fits (put_ctx k c w) cl" if "cl \<in> set (wd_conns w)" for cl
    using w(1) [OF that] by (simp add: conn_fits_def alive) (simp add: put_ctx_def)
  ultimately show ?thesis
    using ok by (auto simp: world_ok_def refs_exact_def put_ctx_def)
qed

lemma w_set_verify_ok:
  assumes "world_ok w" "conn_alive w j" "ctx_alive w (cl_ctx (wd_conns w ! j))"
    and "c_ctx (sl_ctxt (wd_ctxs w ! cl_ctx (wd_conns w ! j))) \<noteq> None"
  shows "ensures (w_set_verify j store level depth w) world_ok"
  using assms conn_okD(3) [OF assms(1,2)]
  by (auto simp: w_set_verify_def the_client_def the_ctx_def SSL_setVerify_def set_verify_fields_def Let_def
      intro!: put_ctx_ok)

lemma w_setting_ok:
  assumes "world_ok w" and "ctx_alive w k" and "ctx_typed (sl_ctxt (wd_ctxs w ! k))" and "ctx_good op" and "op \<noteq> Cleanup"
  shows "ensures (w_setting k op w) world_ok"
proof -
  have k: "k < length (wd_ctxs w)" using assms(2) by (simp add: ctx_alive_def)
  obtain c where c: "ctx_exec op (sl_ctxt (wd_ctxs w ! k)) = Inr c"
    using ctx_exec_typed [OF assms(3,4)] by (auto simp: ensures_def)
  have "world_ok (put_ctx k c w)"
    by (rule put_ctx_ok [OF assms(1) k ctx_exec_ctx [OF c assms(5)]])
  then show ?thesis using assms(2) c by (simp add: w_setting_def the_ctx_def)
qed

text \<open>Connections are made and freed.\<close>

lemma newSSL_returns:
  "w_malloc1 env \<Longrightarrow> w_malloc2 env \<Longrightarrow> \<exists>r evs. newSSL env server c = Inr (r, evs)"
  by (auto simp: newSSL_def split: option.split)

lemma w_new_ssl_ok:
  assumes ok: "world_ok w" and k: "ctx_alive w k" and m: "w_malloc1 env" "w_malloc2 env"
    and i: "w_idx3 env" "w_idx4 env"
  shows "ensures (w_new_ssl k env server w) world_ok"
proof -
  note w = world_okD [OF ok]
  let ?c = "sl_ctxt (wd_ctxs w ! k)"
  let ?env = "if c_ctx ?c = None then env\<lparr>w_ssl_new := None\<rparr> else env"
  obtain r evs where r: "newSSL ?env server ?c = Inr (r, evs)"
  proof -
    have "w_malloc1 ?env" "w_malloc2 ?env" using m by simp_all
    from newSSL_returns [OF this] show thesis using that by blast
  qed
  show ?thesis
  proof (cases r)
    case None
    then show ?thesis using ok k r by (simp add: w_new_ssl_def the_ctx_def Let_def)
  next
    case (Some s)
    obtain p where p: "c_ctx ?c = Some p"
      using r Some by (cases "c_ctx ?c") (auto simp: newSSL_def)
    have s: "conn_ok s" "cs_pool_live s" "cs_ssl_live s"
      using r Some i by (auto simp: newSSL_def conn_ok_def split: option.splits if_split_asm)
    have k': "k < length (wd_ctxs w)" using k by (simp add: ctx_alive_def)
    let ?w = "w\<lparr>wd_conns := wd_conns w @ [\<lparr>cl_ctx = k, cl_ssl_ctx = p, cl_conn = s\<rparr>],
        wd_refs := (wd_refs w)(p := wd_refs w p + 1)\<rparr>"
    have "wd_refs w p \<noteq> 0"
      using w(3) [of p] nth_mem [OF k'] p by (auto simp: ctx_holders_def filter_empty_conv)
    then have "p < wd_next w" using w(4) [of p] by (meson not_le)
    have "conn_fits ?w cl" if "cl \<in> set (wd_conns ?w)" for cl
      using that w(1) k k' s by (auto simp: conn_fits_def)
    moreover have "slot_fits ?w sl" if "sl \<in> set (wd_ctxs w)" for sl
      using w(2) [OF that] by (simp add: slot_fits_def)
    moreover have "refs_exact ?w"
      using w(3) s(3) by (auto simp: refs_exact_def conn_holders_def)
    moreover have "wd_refs ?w q = 0" if "wd_next ?w \<le> q" for q
      using w(4) [of q] that \<open>p < wd_next w\<close> by auto
    ultimately have "world_ok ?w" by (simp add: world_ok_def)
    then show ?thesis using k r Some p by (simp add: w_new_ssl_def the_ctx_def Let_def)
  qed
qed

definition freed :: "conn_state \<Rightarrow> conn_state" where
  "freed s = (lost s)\<lparr>cs_destroyCount := None, cs_handshakeCount := None, cs_ssl_live := False\<rparr>"

lemma freeSSL_freed: "conn_ok s \<Longrightarrow> freeSSL s = Inr (freed s)"
  by (auto simp: freed_def lost_def conn_ok_def freeSSL_def destroy_conn_pool_def ssl_con_pool_cleanup_def)

lemma freed_gone: "conn_ok s \<Longrightarrow> conn_gone (freed s)"
  by (auto simp: freed_def lost_def conn_ok_def conn_gone_def)

text \<open>The world with one connection less.\<close>

definition without_conn :: "nat \<Rightarrow> world \<Rightarrow> world" where
  "without_conn j w = put_conn j (freed (cl_conn (wd_conns w ! j)))
     (w\<lparr>wd_refs := (wd_refs w)(cl_ssl_ctx (wd_conns w ! j) := wd_refs w (cl_ssl_ctx (wd_conns w ! j)) - 1)\<rparr>)"

lemma w_free_ssl_result:
  assumes ok: "world_ok w" and j: "conn_alive w j"
  shows "w_free_ssl j w = Inr (without_conn j w)" and "world_ok (without_conn j w)"
proof -
  note w = world_okD [OF ok]
  let ?cl = "wd_conns w ! j"
  let ?p = "cl_ssl_ctx ?cl"
  let ?s = "freed (cl_conn ?cl)"
  let ?w = "without_conn j w"
  have j': "j < length (wd_conns w)" "cs_ssl_live (cl_conn ?cl)" using j by (auto simp: conn_alive_def)
  note s = conn_okD(1) [OF ok j]
  have gone: "conn_gone ?s" "\<not> cs_ssl_live ?s" using freed_gone [OF s] by (auto simp: conn_gone_def)
  have h: "conn_holders p (wd_conns ?w) + of_bool (?p = p) = conn_holders p (wd_conns w)" for p
    using conn_holders_release [OF j'(1,2) gone(2)] by (simp add: without_conn_def put_conn_def)
  have "wd_refs w ?p \<noteq> 0" using w(3) [of ?p] h [of ?p] by auto
  then show "w_free_ssl j w = Inr ?w"
    using j freeSSL_freed [OF s] by (simp add: w_free_ssl_def the_client_def unref_def without_conn_def)
  have "conn_fits w (?cl\<lparr>cl_conn := ?s\<rparr>)"
    using w(1) [OF nth_mem [OF j'(1)]] gone by (simp add: conn_fits_def)
  then have "conn_fits w cl" if "cl \<in> set (wd_conns ?w)" for cl
    using that w(1) set_update_subset_insert [of "wd_conns w" j "?cl\<lparr>cl_conn := ?s\<rparr>"]
    by (auto simp: without_conn_def put_conn_def)
  then have "conn_fits ?w cl" if "cl \<in> set (wd_conns ?w)" for cl
    using that by (simp add: conn_fits_def without_conn_def put_conn_def)
  moreover have "slot_fits ?w sl" if "sl \<in> set (wd_ctxs w)" for sl
    using w(2) [OF that] by (simp add: slot_fits_def without_conn_def put_conn_def)
  moreover have "wd_refs ?w p = ctx_holders p (wd_ctxs w) + conn_holders p (wd_conns ?w)" for p
    using w(3) [of p] h [of p] by (auto simp: without_conn_def put_conn_def)
  moreover have "wd_refs ?w p = 0" if "wd_next w \<le> p" for p
    using w(4) [OF that] by (cases "p = ?p") (simp_all add: without_conn_def put_conn_def)
  ultimately show "world_ok ?w"
    by (simp add: world_ok_def refs_exact_def) (simp add: without_conn_def put_conn_def)
qed

lemma without_conn_alive:
  "pool_alive (without_conn j w) q \<longleftrightarrow> pool_alive w q"
  "ctx_alive (without_conn j w) k \<longleftrightarrow> ctx_alive w k"
  "conn_alive (without_conn j w) i \<longleftrightarrow> conn_alive w i \<and> i \<noteq> j"
  by (cases "j < length (wd_conns w)";
      auto simp: without_conn_def put_conn_def conn_alive_def freed_def nth_list_update split: if_splits)+

text \<open>Contexts are made and freed.\<close>

lemma make_ctx:
  "fst (SSLContext_make env protocol mode) = Some c \<Longrightarrow> c_ctx c = m_ctx_new env (SSL_CTX_method mode) \<and> c_ctx c \<noteq> None"
  by (auto simp: SSLContext_make_def Let_def split: if_split_asm option.split_asm)

lemma w_make_ok:
  assumes ok: "world_ok w" and q: "pool_alive w q"
  shows "ensures (w_make q env protocol mode w) world_ok"
proof -
  note w = world_okD [OF ok]
  let ?env = "env\<lparr>m_ctx_new := \<lambda>m. map_option (\<lambda>_. wd_next w) (m_ctx_new env m)\<rparr>"
  show ?thesis
  proof (cases "fst (SSLContext_make ?env protocol mode)")
    case None
    have "world_ok (w\<lparr>wd_next := wd_next w + 1\<rparr>)"
      using ok by (auto simp: world_ok_def refs_exact_def conn_fits_def slot_fits_def dest: Suc_leD)
    then show ?thesis using None q by (simp add: w_make_def)
  next
    case (Some c)
    have c: "c_ctx c = Some (wd_next w)"
      using make_ctx [OF Some] by (cases "m_ctx_new env (SSL_CTX_method mode)") auto
    let ?sl = "\<lparr>sl_pool = q, sl_registered = True, sl_ctxt = c\<rparr>"
    let ?w = "w\<lparr>wd_ctxs := wd_ctxs w @ [?sl], wd_refs := (wd_refs w)(wd_next w := 1), wd_next := wd_next w + 1\<rparr>"
    have alive: "ctx_alive (w\<lparr>wd_ctxs := wd_ctxs w @ [?sl]\<rparr>) k \<longleftrightarrow> ctx_alive w k" if "k < length (wd_ctxs w)" for k
      using that by (simp add: ctx_alive_def nth_append)
    have "conn_fits ?w cl" if "cl \<in> set (wd_conns w)" for cl
      using w(1) [OF that] by (auto simp: conn_fits_def alive)
    moreover have "slot_fits ?w sl" if "sl \<in> set (wd_ctxs ?w)" for sl
      using that w(2) q c by (auto simp: slot_fits_def pool_alive_def)
    moreover have "refs_exact ?w"
      using w(3) w(4) [of "wd_next w"] c by (auto simp: refs_exact_def ctx_holders_def)
    moreover have "wd_refs ?w p = 0" if "wd_next ?w \<le> p" for p
      using w(4) [of p] that by simp
    ultimately have "world_ok ?w" by (simp add: world_ok_def)
    then show ?thesis using Some q by (simp add: w_make_def)
  qed
qed

lemma w_ctx_free_ok:
  assumes ok: "world_ok w" and k: "ctx_alive w k"
  shows "ensures (w_ctx_free k w) world_ok"
proof -
  note w = world_okD [OF ok]
  let ?c = "sl_ctxt (wd_ctxs w ! k)"
  let ?sl = "(wd_ctxs w ! k)\<lparr>sl_registered := False, sl_ctxt := fst (ssl_context_cleanup ?c)\<rparr>"
  let ?refs = "\<lambda>p. wd_refs w p - of_bool (c_ctx ?c = Some p)"
  let ?w = "w\<lparr>wd_ctxs := (wd_ctxs w)[k := ?sl], wd_refs := ?refs\<rparr>"
  have k': "k < length (wd_ctxs w)" using k by (simp add: ctx_alive_def)
  have h: "ctx_holders p ((wd_ctxs w)[k := ?sl]) + of_bool (c_ctx ?c = Some p) = ctx_holders p (wd_ctxs w)" for p
    by (rule ctx_holders_release [OF k']) (simp add: cleanup_ctx)
  have le: "of_bool (c_ctx ?c = Some p) \<le> wd_refs w p" for p
    using w(3) [of p] h [of p] by linarith
  have r: "ref_effects (snd (ssl_context_cleanup ?c)) (wd_refs w) = Inr ?refs"
  proof (cases "c_ctx ?c")
    case None
    then show ?thesis by (simp add: cleanup_ref_effects)
  next
    case (Some x)
    then show ?thesis using le [of x] by (auto simp: cleanup_ref_effects unref_def)
  qed
  have alive: "ctx_alive (w\<lparr>wd_ctxs := (wd_ctxs w)[k := ?sl]\<rparr>) i \<longleftrightarrow> ctx_alive w i" for i
    using k' by (cases "i = k") (simp_all add: ctx_alive_def)
  have "slot_fits w ?sl"
    using w(2) [OF nth_mem [OF k']] by (simp add: slot_fits_def cleanup_ctx)
  then have "slot_fits ?w sl" if "sl \<in> set (wd_ctxs ?w)" for sl
    using that w(2) set_update_subset_insert [of "wd_ctxs w" k ?sl] by (auto simp: slot_fits_def)
  moreover have "conn_fits ?w cl" if "cl \<in> set (wd_conns w)" for cl
    using w(1) [OF that] by (simp add: conn_fits_def alive)
  moreover have "refs_exact ?w"
    unfolding refs_exact_def
  proof
    fix p
    show "wd_refs ?w p = ctx_holders p (wd_ctxs ?w) + conn_holders p (wd_conns ?w)"
      using w(3) [of p] h [of p] by simp
  qed
  moreover have "wd_refs ?w p = 0" if "wd_next ?w \<le> p" for p
    using w(4) [of p] that by simp
  ultimately have "world_ok ?w" by (simp add: world_ok_def)
  then show ?thesis
    using k r by (simp add: w_ctx_free_def the_ctx_def SSLContext_free_def case_prod_unfold Let_def)
qed

text \<open>Pools and the library.\<close>

lemma new_pool_ok:
  assumes ok: "world_ok w"
  shows "world_ok (new_pool b par w)"
proof (cases b)
  case True
  note w = world_okD [OF ok]
  let ?w = "new_pool b par w"
  have w': "?w = w\<lparr>wd_pools := wd_pools w @ [\<lparr>jp_live = True, jp_parent = par\<rparr>]\<rparr>"
    using True by (simp add: new_pool_def)
  have alive: "pool_alive ?w q \<longleftrightarrow> pool_alive w q" if "q < length (wd_pools w)" for q
    using that by (simp add: pool_alive_def w' nth_append)
  have ctx: "ctx_alive ?w k \<longleftrightarrow> ctx_alive w k" if "k < length (wd_ctxs w)" for k
  proof -
    have "sl_pool (wd_ctxs w ! k) < length (wd_pools w)"
      using w(2) [OF nth_mem [OF that]] by (simp add: slot_fits_def)
    from alive [OF this] show ?thesis by (simp add: ctx_alive_def) (simp add: w')
  qed
  have "conn_fits ?w cl" if "cl \<in> set (wd_conns w)" for cl
    using w(1) [OF that] by (auto simp: conn_fits_def ctx) (simp_all add: w')
  moreover have "slot_fits ?w sl" if "sl \<in> set (wd_ctxs w)" for sl
    using w(2) [OF that] by (auto simp: slot_fits_def alive) (simp_all add: w')
  ultimately show ?thesis
    using w(3,4) by (auto simp: world_ok_def refs_exact_def w')
qed (simp add: ok new_pool_def)

lemma world_ok_global: "world_ok (w\<lparr>wd_global := b\<rparr>) \<longleftrightarrow> world_ok w"
  by (simp add: world_ok_def refs_exact_def conn_fits_def slot_fits_def)

text \<open>Several pools are destroyed.\<close>

lemma fold_without_pool:
  "pool_alive (fold without_pool qs w) r \<longleftrightarrow> pool_alive w r \<and> r \<notin> set qs"
  "conn_alive (fold without_pool qs w) j \<longleftrightarrow> conn_alive w j"
  "length (wd_conns (fold without_pool qs w)) = length (wd_conns w)"
  "length (wd_pools (fold without_pool qs w)) = length (wd_pools w)"
  "wd_global (fold without_pool qs w) = wd_global w"
  by (induction qs arbitrary: w) (auto simp: without_pool_alive)

lemma fold_without_pool_same:
  "j < length (wd_conns w) \<Longrightarrow> cl_ctx (wd_conns (fold without_pool qs w) ! j) = cl_ctx (wd_conns w ! j)"
  "k < length (wd_ctxs w) \<Longrightarrow> sl_pool (wd_ctxs (fold without_pool qs w) ! k) = sl_pool (wd_ctxs w ! k)"
  by (induction qs arbitrary: w) (auto simp: without_pool_def)

lemma fold_without_pool_tree: "pools_without (set qs) (wd_pools w) (wd_pools (fold without_pool qs w))"
proof (induction qs arbitrary: w)
  case (Cons q qs)
  have "pools_without {q} (wd_pools w) (wd_pools (without_pool q w))"
    using pools_without_step [OF pools_without_refl] by (simp add: without_pool_def)
  from pools_without_trans [OF this Cons.IH] show ?case by simp
qed (simp add: pools_without_refl)

lemma destroy_jpools:
  "world_ok w \<Longrightarrow> distinct qs \<Longrightarrow> (\<And>q. q \<in> set qs \<Longrightarrow> pool_alive w q) \<Longrightarrow>
   run_ops destroy_jpool qs w = Inr (fold without_pool qs w) \<and> world_ok (fold without_pool qs w)"
proof (induction qs arbitrary: w)
  case (Cons q qs)
  have q: "destroy_jpool q w = Inr (without_pool q w)"
    using Cons.prems by (intro destroy_jpool_result) auto
  have "pool_alive (without_pool q w) r" if "r \<in> set qs" for r
    using that Cons.prems by (auto simp: without_pool_alive)
  with Cons.IH [OF without_pool_ok [OF Cons.prems(1)]] Cons.prems(2) show ?case by (simp add: q)
qed simp

definition without_subtree :: "nat \<Rightarrow> world \<Rightarrow> world" where
  "without_subtree q w = fold without_pool (subtree (wd_pools w) q) w"

lemma w_pool_destroy_result:
  assumes "world_ok w" and "pool_alive w q" and "wd_global w"
  shows "w_pool_destroy q w = Inr (without_subtree q w)" and "world_ok (without_subtree q w)"
proof -
  have "pool_alive w r" if "r \<in> set (subtree (wd_pools w) q)" for r
    using subtree_live [OF that] assms(2) by (cases "r = q") (auto simp: pool_alive_def)
  from destroy_jpools [OF assms(1) distinct_subtree this]
  show "w_pool_destroy q w = Inr (without_subtree q w)" and "world_ok (without_subtree q w)"
    using assms(2,3) by (simp_all add: w_pool_destroy_def without_subtree_def)
qed

lemma without_subtree_alive:
  "pool_alive (without_subtree q w) r \<longleftrightarrow> pool_alive w r \<and> r \<notin> set (subtree (wd_pools w) q)"
  "conn_alive (without_subtree q w) j \<longleftrightarrow> conn_alive w j"
  by (simp_all add: without_subtree_def fold_without_pool)

definition terminated :: "world \<Rightarrow> world" where
  "terminated w =
     (if wd_global w then fold without_pool (below_global (wd_pools w)) (w\<lparr>wd_global := False\<rparr>) else w)"

lemma w_lib_term_result:
  assumes "world_ok w"
  shows "w_lib_term w = Inr (terminated w)" and "world_ok (terminated w)"
proof -
  let ?w = "w\<lparr>wd_global := False\<rparr>"
  have "pool_alive ?w q" if "q \<in> set (below_global (wd_pools w))" for q
    using below_global_live [OF that] by (simp add: pool_alive_def)
  moreover have "world_ok ?w" using assms by (simp add: world_ok_global)
  ultimately have "run_ops destroy_jpool (below_global (wd_pools w)) ?w = Inr (fold without_pool (below_global (wd_pools w)) ?w) \<and>
    world_ok (fold without_pool (below_global (wd_pools w)) ?w)"
    by (intro destroy_jpools distinct_below_global) auto
  then show "w_lib_term w = Inr (terminated w)" and "world_ok (terminated w)"
    using assms by (simp_all add: w_lib_term_def terminated_def)
qed

lemma terminated_alive:
  "pool_alive (terminated w) q \<longleftrightarrow> pool_alive w q \<and> \<not> (wd_global w \<and> q \<in> set (below_global (wd_pools w)))"
  "conn_alive (terminated w) j \<longleftrightarrow> conn_alive w j"
  "length (wd_conns (terminated w)) = length (wd_conns w)"
  by (auto simp: terminated_def fold_without_pool) (auto simp: conn_alive_def)

section \<open>The discipline keeps the objects and the tree of pools\<close>

definition ctxs_typed :: "world \<Rightarrow> bool" where
  "ctxs_typed w \<longleftrightarrow> (\<forall>sl \<in> set (wd_ctxs w). ctx_typed (sl_ctxt sl))"

definition world_inv :: "world \<Rightarrow> bool" where
  "world_inv w \<longleftrightarrow> world_ok w \<and> pools_ok (wd_global w) (wd_pools w) \<and> ctxs_typed w"

lemma world_inv_start: "world_inv world_start"
  by (simp add: world_inv_def world_ok_start) (simp add: world_start_def pools_ok_def ctxs_typed_def)

text \<open>Contexts stay well-typed when one is replaced, and when pools are destroyed.\<close>

lemma ctxs_typed_nth: "ctxs_typed w \<Longrightarrow> ctx_alive w k \<Longrightarrow> ctx_typed (sl_ctxt (wd_ctxs w ! k))"
  by (simp add: ctxs_typed_def ctx_alive_def)

lemma ctxs_typed_update:
  assumes "ctxs_typed w" and "wd_ctxs w' = (wd_ctxs w)[k := sl]" and "ctx_typed (sl_ctxt sl)"
  shows "ctxs_typed w'"
  using assms set_update_subset_insert [of "wd_ctxs w" k sl] by (auto simp: ctxs_typed_def)

lemma ctxs_typed_same: "wd_ctxs w' = wd_ctxs w \<Longrightarrow> ctxs_typed w' \<longleftrightarrow> ctxs_typed w"
  by (simp add: ctxs_typed_def)

lemma without_pool_typed: "ctxs_typed w \<Longrightarrow> ctxs_typed (without_pool q w)"
  by (auto simp: ctxs_typed_def without_pool_def cleaned_def cleanup_typed)

lemma fold_without_pool_typed: "ctxs_typed w \<Longrightarrow> ctxs_typed (fold without_pool qs w)"
  by (induction qs arbitrary: w) (simp_all add: without_pool_typed)

lemma w_lib_init_inv: "world_inv w \<Longrightarrow> world_inv (w_lib_init ok w)"
  by (auto simp: world_inv_def w_lib_init_def world_ok_global pools_ok_global ctxs_typed_def)

lemma terminated_inv:
  assumes "world_inv w"
  shows "world_inv (terminated w)"
proof -
  have "pools_ok False (wd_pools (terminated w))" if "wd_global w"
    using assms that fold_without_pool_tree [of "below_global (wd_pools w)" "w\<lparr>wd_global := False\<rparr>"]
    by (auto simp: world_inv_def terminated_def intro: pools_ok_below_global)
  moreover have "ctxs_typed (terminated w)"
    using assms fold_without_pool_typed [of "w\<lparr>wd_global := False\<rparr>"] ctxs_typed_same [of "w\<lparr>wd_global := False\<rparr>" w]
    by (simp add: world_inv_def terminated_def)
  ultimately show ?thesis
    using assms w_lib_term_result(2) [of w]
    by (cases "wd_global w") (auto simp: world_inv_def terminated_def fold_without_pool)
qed

lemma without_subtree_inv:
  assumes "world_inv w" and "pool_alive w q" and "wd_global w"
  shows "world_inv (without_subtree q w)"
proof -
  have ok: "world_ok w" and tree: "pools_ok (wd_global w) (wd_pools w)"
    using assms(1) by (simp_all add: world_inv_def)
  have "pools_ok (wd_global w) (wd_pools (without_subtree q w))"
    unfolding without_subtree_def by (rule pools_ok_subtree [OF tree fold_without_pool_tree])
  then show ?thesis
    using w_pool_destroy_result(2) [OF ok assms(2,3)] assms(1)
    by (simp add: world_inv_def without_subtree_def fold_without_pool fold_without_pool_typed)
qed

lemma new_pool_inv:
  assumes "world_inv w" and "parent_ok (wd_global w) (wd_pools w) (length (wd_pools w)) par"
  shows "world_inv (new_pool ok par w)"
  using assms new_pool_ok [of w] by (auto simp: new_pool_def world_inv_def ctxs_typed_def intro: pools_ok_create)

lemma w_pool_create_inv:
  assumes "world_inv w" and "legal w (Op_Pool_Create ok parent)"
  shows "ensures (w_pool_create ok parent w) world_inv"
proof (cases parent)
  case None
  then show ?thesis using assms(1) by (simp add: w_pool_create_def new_pool_inv)
next
  case (Some p)
  then have "pool_alive w p" using assms(2) by simp
  then show ?thesis using assms(1) Some by (simp add: w_pool_create_def new_pool_inv pool_alive_def)
qed

text \<open>The other operations leave the pools alone.\<close>

definition pool_op :: "('c, 'r) world_op \<Rightarrow> bool" where
  "pool_op op \<longleftrightarrow>
     (case op of Op_Init _ \<Rightarrow> True | Op_Term \<Rightarrow> True | Op_Pool_Create _ _ \<Rightarrow> True | Op_Pool_Destroy _ \<Rightarrow> True | _ \<Rightarrow> False)"

definition same_pools :: "world \<Rightarrow> world \<Rightarrow> bool" where
  "same_pools w w' \<longleftrightarrow> wd_global w' = wd_global w \<and> wd_pools w' = wd_pools w"

lemma w_make_pools: "w_make q env protocol mode w = Inr w' \<Longrightarrow> same_pools w w'"
  by (auto simp: w_make_def same_pools_def Let_def split: if_split_asm option.split_asm)

lemma w_new_ssl_pools: "w_new_ssl k env server w = Inr w' \<Longrightarrow> same_pools w w' \<and> wd_ctxs w' = wd_ctxs w"
  by (auto simp: w_new_ssl_def same_pools_def Let_def elim!: run_bind_InrE split: if_split_asm option.split_asm)

lemma w_ctx_free_pools: "w_ctx_free k w = Inr w' \<Longrightarrow> same_pools w w'"
  by (auto simp: w_ctx_free_def same_pools_def Let_def elim!: run_bind_InrE split: prod.split_asm)

lemma w_set_verify_pools: "w_set_verify j store level depth w = Inr w' \<Longrightarrow> same_pools w w'"
  by (auto simp: w_set_verify_def same_pools_def put_ctx_def elim!: run_bind_InrE split: if_split_asm)

lemma w_setting_pools: "w_setting k op w = Inr w' \<Longrightarrow> same_pools w w'"
  by (auto simp: w_setting_def same_pools_def put_ctx_def elim!: run_bind_InrE)

lemma object_op_pools:
  assumes "\<not> pool_op op" and "world_exec op w = Inr w'"
  shows "same_pools w w'"
proof (cases op)
  case (Op_Make q env protocol mode)
  then show ?thesis using assms(2) w_make_pools by simp
next
  case (Op_New k env server)
  then show ?thesis using assms(2) w_new_ssl_pools by simp
next
  case (Op_Ctx_Free k)
  then show ?thesis using assms(2) w_ctx_free_pools by simp
next
  case (Op_Set_Verify j store level depth)
  then show ?thesis using assms(2) w_set_verify_pools by simp
next
  case (Op_Setting k op)
  then show ?thesis using assms(2) w_setting_pools by simp
qed (use assms in \<open>auto simp: pool_op_def same_pools_def w_free_ssl_def w_info_def w_post_handshake_def w_verify_def
    put_conn_def elim!: run_bind_InrE\<close>)

text \<open>They keep the contexts well-typed.\<close>

lemma w_make_typed:
  assumes "w_make q env protocol mode w = Inr w'" and "length (m_sha1 env SSL_DEFAULT_VHOST_NAME) = 20" and "ctxs_typed w"
  shows "ctxs_typed w'"
proof -
  let ?env = "env\<lparr>m_ctx_new := \<lambda>m. map_option (\<lambda>_. wd_next w) (m_ctx_new env m)\<rparr>"
  have typed: "ctx_typed c" if "fst (SSLContext_make ?env protocol mode) = Some c" for c
    using make_typed [of ?env protocol mode c "snd (SSLContext_make ?env protocol mode)"] that assms(2)
    by (simp add: prod_eq_iff)
  show ?thesis
    using assms(1,3) typed
    by (cases "fst (SSLContext_make ?env protocol mode)") (auto simp: w_make_def ctxs_typed_def split: if_split_asm)
qed

lemma w_ctx_free_typed:
  assumes "w_ctx_free k w = Inr w'" and "ctxs_typed w"
  shows "ctxs_typed w'"
proof -
  obtain c refs where c: "the_ctx k w = Inr c"
    and w': "w' = w\<lparr>wd_ctxs := (wd_ctxs w)[k := (wd_ctxs w ! k)
      \<lparr>sl_registered := False, sl_ctxt := fst (ssl_context_cleanup c)\<rparr>], wd_refs := refs\<rparr>"
    using assms(1) by (auto simp: w_ctx_free_def SSLContext_free_def case_prod_unfold Let_def elim!: run_bind_InrE)
  have "ctx_typed c" using c assms(2) by (auto simp: the_ctx_def ctxs_typed_nth split: if_split_asm)
  with assms(2) show ?thesis
    by (intro ctxs_typed_update [where w' = w']) (auto simp: w' cleanup_typed)
qed

lemma put_ctx_typed: "ctxs_typed w \<Longrightarrow> ctx_typed c \<Longrightarrow> ctxs_typed (put_ctx k c w)"
  by (rule ctxs_typed_update [where k = k and sl = "(wd_ctxs w ! k)\<lparr>sl_ctxt := c\<rparr>"]) (simp_all add: put_ctx_def)

lemma w_set_verify_typed:
  "w_set_verify j store level depth w = Inr w' \<Longrightarrow> ctxs_typed w \<Longrightarrow> ctxs_typed w'"
  by (auto simp: w_set_verify_def the_ctx_def SSL_setVerify_def Let_def ctxs_typed_nth elim!: run_bind_InrE
      intro!: put_ctx_typed set_verify_fields_typed split: if_split_asm)

lemma w_setting_typed:
  assumes "w_setting k op w = Inr w'" and "ctxs_typed w" and "ctx_good op"
  shows "ctxs_typed w'"
proof -
  obtain c where k: "ctx_alive w k" and c: "ctx_exec op (sl_ctxt (wd_ctxs w ! k)) = Inr c" and w': "w' = put_ctx k c w"
    using assms(1) by (auto simp: w_setting_def the_ctx_def elim!: run_bind_InrE split: if_split_asm)
  have "ctx_typed c"
    using ctx_exec_typed [OF ctxs_typed_nth [OF assms(2) k] assms(3)] by (simp add: c)
  then show ?thesis by (simp add: w' put_ctx_typed assms(2))
qed

lemma object_op_typed:
  assumes "\<not> pool_op op" and "world_exec op w = Inr w'" and "legal w op" and "ctxs_typed w"
  shows "ctxs_typed w'"
proof (cases op)
  case (Op_Make q env protocol mode)
  then show ?thesis using assms w_make_typed by simp
next
  case (Op_New k env server)
  then have "wd_ctxs w' = wd_ctxs w" using assms(2) w_new_ssl_pools [of k env server w w'] by simp
  then show ?thesis using ctxs_typed_same assms(4) by blast
next
  case (Op_Ctx_Free k)
  then show ?thesis using assms w_ctx_free_typed by simp
next
  case (Op_Set_Verify j store level depth)
  then show ?thesis using assms w_set_verify_typed by simp
next
  case (Op_Setting k op)
  then show ?thesis using assms w_setting_typed by simp
qed (use assms(1,2,4) in \<open>auto simp: pool_op_def w_free_ssl_def w_info_def w_post_handshake_def w_verify_def
    put_conn_def elim!: run_bind_InrE intro: ctxs_typed_same [THEN iffD2]\<close>)

lemma object_op_ok:
  assumes "world_ok w" and "legal w op" and "\<not> pool_op op" and "ctxs_typed w"
  shows "ensures (world_exec op w) world_ok"
  using assms
  by (cases op)
    (auto simp: pool_op_def w_free_ssl_result w_make_ok w_ctx_free_ok w_new_ssl_ok w_info_ok w_post_handshake_ok
      w_verify_ok w_set_verify_ok intro!: w_setting_ok ctxs_typed_nth)

interpretation world: discipline "world_exec :: ('c, 'r) world_op \<Rightarrow> world \<Rightarrow> world run" world_inv legal
proof
  fix w :: world and op :: "('c, 'r) world_op"
  assume inv: "world_inv w" and l: "legal w op"
  then have ok: "world_ok w" and typed: "ctxs_typed w" by (simp_all add: world_inv_def)
  show "ensures (world_exec op w) world_inv"
  proof (cases "pool_op op")
    case True
    then show ?thesis
      using inv l w_pool_destroy_result(1) [OF ok] without_subtree_inv [OF inv] w_pool_create_inv [OF inv]
      by (cases op) (auto simp: pool_op_def w_lib_init_inv w_lib_term_result [OF ok] terminated_inv w_pool_destroy_def)
  next
    case False
    then show ?thesis
      using inv object_op_pools [OF False] object_op_typed [OF False _ l typed]
      by (intro ensures_mono [OF object_op_ok [OF ok l False typed]]) (auto simp: world_inv_def same_pools_def)
  qed
qed

text \<open>Several connections are freed.\<close>

lemma fold_without_conn:
  "conn_alive (fold without_conn js w) i \<longleftrightarrow> conn_alive w i \<and> i \<notin> set js"
  "wd_pools (fold without_conn js w) = wd_pools w"
  "wd_global (fold without_conn js w) = wd_global w"
  by (induction js arbitrary: w) (auto simp: without_conn_alive, simp_all add: without_conn_def put_conn_def)

lemma free_conns:
  "world_ok w \<Longrightarrow> distinct js \<Longrightarrow> (\<And>j. j \<in> set js \<Longrightarrow> conn_alive w j) \<Longrightarrow>
   world_run (map Op_Free js) w = Inr (fold without_conn js w) \<and> world_ok (fold without_conn js w)"
proof (induction js arbitrary: w)
  case (Cons j js)
  have j: "conn_alive w j" using Cons.prems by simp
  have "conn_alive (without_conn j w) i" if "i \<in> set js" for i
    using that Cons.prems by (auto simp: without_conn_alive)
  with Cons.IH [OF w_free_ssl_result(2) [OF Cons.prems(1) j]] Cons.prems(2)
    w_free_ssl_result(1) [OF Cons.prems(1) j]
  show ?case by (simp add: world_run_def)
qed (simp add: world_run_def)

text \<open>Nothing is left.\<close>

definition released :: "world \<Rightarrow> bool" where
  "released w \<longleftrightarrow> (\<forall>cl \<in> set (wd_conns w). conn_gone (cl_conn cl)) \<and>
     (\<forall>po \<in> set (wd_pools w). \<not> jp_live po) \<and> (\<forall>p. wd_refs w p = 0)"

lemma released_if:
  assumes "world_ok w" and conns: "\<And>j. \<not> conn_alive w j" and pools: "\<And>q. \<not> pool_alive w q"
  shows "released w"
proof -
  note w = world_okD [OF assms(1)]
  have dead: "\<not> cs_ssl_live (cl_conn cl)" if "cl \<in> set (wd_conns w)" for cl
    using that conns by (auto simp: conn_alive_def in_set_conv_nth)
  have none: "c_ctx (sl_ctxt sl) = None" if "sl \<in> set (wd_ctxs w)" for sl
    using w(2) [OF that] pools by (auto simp: slot_fits_def)
  have "conn_gone (cl_conn cl)" if "cl \<in> set (wd_conns w)" for cl
    using w(1) [OF that] dead [OF that] by (simp add: conn_fits_def)
  moreover have "\<not> jp_live po" if "po \<in> set (wd_pools w)" for po
    using that pools by (auto simp: pool_alive_def in_set_conv_nth)
  moreover have "wd_refs w p = 0" for p
    using w(3) [of p] dead none by (simp add: ctx_holders_def conn_holders_def)
  ultimately show ?thesis by (simp add: released_def)
qed

text \<open>The end: connections are freed, the library is terminated, connections are freed.\<close>

lemma teardown:
  assumes inv: "world_inv w" and "wd_global w"
    and parents: "\<forall>po \<in> set (wd_pools w). jp_live po \<longrightarrow> jp_parent po \<noteq> No_Parent"
    and "set js = {j. conn_alive w j}" and "distinct js"
  shows "\<exists>w1 w2 w3. world_run (map Op_Free (take n js) :: ('c, 'r) world_op list) w = Inr w1 \<and>
    w_lib_term w1 = Inr w2 \<and> wd_global w1 \<and>
    world_run (map Op_Free (drop n js) :: ('c, 'r) world_op list) w2 = Inr w3 \<and> released w3"
proof -
  define w1 where "w1 = fold without_conn (take n js) w"
  define w3 where "w3 = fold without_conn (drop n js) (terminated w1)"
  have js: "set (take n js) \<union> set (drop n js) = set js" "set (take n js) \<inter> set (drop n js) = {}"
    using assms(5) by (metis append_take_drop_id set_append, metis append_take_drop_id distinct_append)
  have "conn_alive w j" if "j \<in> set (take n js)" for j
    using that js(1) assms(4) by blast
  then have 1: "world_run (map Op_Free (take n js) :: ('c, 'r) world_op list) w = Inr w1" "world_ok w1"
    using free_conns [of w "take n js"] assms(5) inv by (auto simp: w1_def world_inv_def)
  note 2 = w_lib_term_result [OF 1(2)]
  have "conn_alive (terminated w1) j" if "j \<in> set (drop n js)" for j
    using that js assms(4) by (auto simp: terminated_alive w1_def fold_without_conn)
  then have 3: "world_run (map Op_Free (drop n js) :: ('c, 'r) world_op list) (terminated w1) = Inr w3" "world_ok w3"
    using free_conns [OF 2(2), of "drop n js"] assms(5) by (auto simp: w3_def)
  have "\<not> conn_alive w3 j" for j
    using js(1) assms(4) by (auto simp: w3_def w1_def fold_without_conn terminated_alive)
  moreover have "\<not> pool_alive w3 q" for q
  proof -
    have "pool_alive w3 q \<longleftrightarrow> pool_alive (terminated w1) q"
      by (simp add: w3_def pool_alive_def fold_without_conn)
    moreover have "wd_pools w1 = wd_pools w" "wd_global w1" "pool_alive w1 q = pool_alive w q"
      using assms(2) by (simp_all add: w1_def fold_without_conn pool_alive_def)
    moreover have "q \<in> set (below_global (wd_pools w))" if "pool_alive w q"
      using below_global_all [OF _ parents, of "wd_global w" q] inv that by (simp add: pool_alive_def world_inv_def)
    ultimately show ?thesis by (auto simp: terminated_alive)
  qed
  ultimately have "released w3" by (rule released_if [OF 3(2)])
  moreover have "wd_global w1" using assms(2) by (simp add: w1_def fold_without_conn)
  ultimately show ?thesis using 1(1) 2(1) 3(1) by blast
qed

section \<open>Properties\<close>

text \<open>
  Used according to the discipline, the native objects are safe together: however
  the operations on pools, contexts and connections are ordered, no memory is touched after
  its release, no counter is released twice, the references that OpenSSL counts for each
  \<open>SSL_CTX\<close> are those of its context and of its live connections, and live pools have live parents.
\<close>

theorem lifecycle_safe:
  assumes "follows legal world_exec ops world_start"
  shows "\<exists>w. world_run ops world_start = Inr w \<and> world_inv w"
  using world.run [OF world_inv_start assms] by (simp add: world_run_def ensures_def)

definition sample_make :: make_env where
  "sample_make = \<lparr>m_ctx_new = \<lambda>_. Some 1, m_pcalloc = True, m_bio_new = None, m_key_log_file = False,
     m_classes_cached = True, m_sha1 = \<lambda>_. replicate 20 0\<rparr>"

definition sample_new :: new_env where
  "sample_new = \<lparr>w_malloc1 = True, w_malloc2 = True, w_ssl_new = Some 4, w_pool = True, w_pcalloc = True,
     w_idx3 = True, w_idx4 = True\<rparr>"

definition sample_ops :: "(nat, nat) world_op list" where
  "sample_ops = [Op_Init True, Op_Pool_Create True None, Op_Pool_Create True (Some 0),
     Op_Make 1 sample_make 0x30 1, Op_Setting 0 (Set_Verify None SSL_CVERIFY_REQUIRE 2), Op_New 0 sample_new True,
     Op_New 0 sample_new True, Op_Info 0 0x20, Op_Ctx_Free 0, Op_Free 1]"

lemmas world_ops_defs = w_lib_init_def w_pool_create_def new_pool_def w_make_def w_new_ssl_def w_info_def w_ctx_free_def w_free_ssl_def
  w_setting_def put_ctx_def set_verify_fields_def

lemmas world_access_defs = pool_alive_def ctx_alive_def conn_alive_def the_ctx_def the_client_def put_conn_def

lemma sample_make_ctx:
  "\<exists>c. fst (SSLContext_make (sample_make\<lparr>m_ctx_new := \<lambda>m. Some p\<rparr>) 0x30 1) = Some c \<and> c_ctx c = Some p"
  by (simp add: SSLContext_make_def SSL_PROTOCOL_NONE_def max_version_def has_proto_def SSL_PROTOCOL_TLSV1_3_def
      sample_make_def Let_def)

lemmas sample_eval = sample_ops_def world_start_def world_ops_defs world_access_defs newSSL_def sample_new_def
  ssl_info_callback_def SSL_CB_HANDSHAKE_DONE_def SSLContext_free_def freeSSL_def destroy_conn_pool_def
  ssl_con_pool_cleanup_def unref_def case_prod_unfold Let_def cleanup_ref_effects cleanup_ctx

lemma sample_follows: "follows legal world_exec sample_ops world_start"
proof -
  obtain c where c: "fst (SSLContext_make (sample_make\<lparr>m_ctx_new := \<lambda>m. Some 1\<rparr>) 0x30 1) = Some c" "c_ctx c = Some 1"
    using sample_make_ctx by blast
  have m: "m_ctx_new sample_make = (\<lambda>_. Some 1)" "m_sha1 sample_make = (\<lambda>_. replicate 20 0)"
    by (simp_all add: sample_make_def)
  show ?thesis using c by (simp add: sample_eval m)
qed

text \<open>
  One connection is left, and two pools, one in the other; the context has been freed.
\<close>

definition sample_pools :: "jpool list" where
  "sample_pools = [\<lparr>jp_live = True, jp_parent = Global_Parent\<rparr>, \<lparr>jp_live = True, jp_parent = Parent 0\<rparr>]"

lemma sample_world:
  "\<exists>w. world_run sample_ops world_start = Inr w \<and> wd_global w \<and>
    wd_pools w = sample_pools \<and> {j. conn_alive w j} = {0} \<and> ctx_alive w 0 \<and>
    cl_ctx (wd_conns w ! 0) = 0 \<and> sl_pool (wd_ctxs w ! 0) = 1"
proof -
  obtain c where c: "fst (SSLContext_make (sample_make\<lparr>m_ctx_new := \<lambda>m. Some 1\<rparr>) 0x30 1) = Some c" "c_ctx c = Some 1"
    using sample_make_ctx by blast
  have m: "m_ctx_new sample_make = (\<lambda>_. Some 1)" "m_sha1 sample_make = (\<lambda>_. replicate 20 0)"
    by (simp_all add: sample_make_def)
  show ?thesis using c by (auto simp: world_run_def sample_eval sample_pools_def m less_Suc_eq)
qed

theorem lifecycle_safe_witness: "\<exists>w. world_run sample_ops world_start = Inr w \<and> world_inv w"
  by (rule lifecycle_safe [OF sample_follows])

text \<open>
  Nothing leaks: after any disciplined use, freeing the connections that are left and
  terminating the library, before, after or between them, releases every connection with its
  counters and its pool, every pool, and every reference to an \<open>SSL_CTX\<close>.
\<close>

theorem teardown_releases:
  fixes ops :: "('c, 'r) world_op list"
  assumes "follows legal world_exec ops world_start" and "world_run ops world_start = Inr w"
    and "wd_global w" and "\<forall>po \<in> set (wd_pools w). jp_live po \<longrightarrow> jp_parent po \<noteq> No_Parent"
    and "set js = {j. conn_alive w j}" and "distinct js"
  shows "\<exists>w'. world_run (map Op_Free (take n js) @ [Op_Term] @ map Op_Free (drop n js) :: ('c, 'r) world_op list) w
      = Inr w' \<and> released w'"
proof -
  have "world_inv w"
    using world.run [OF world_inv_start assms(1)] assms(2) by (simp add: world_run_def)
  from teardown [OF this assms(3-6), of n] obtain w1 w2 w3
    where "world_run (map Op_Free (take n js) :: ('c, 'r) world_op list) w = Inr w1" "w_lib_term w1 = Inr w2"
      "world_run (map Op_Free (drop n js) :: ('c, 'r) world_op list) w2 = Inr w3" "released w3"
    by blast
  then show ?thesis by (simp add: world_run_def run_ops_append)
qed

theorem teardown_releases_witness:
  "\<exists>w w'. world_run sample_ops world_start = Inr w \<and>
    world_run (map Op_Free (take 0 [0]) @ [Op_Term] @ map Op_Free (drop 0 [0]) :: (nat, nat) world_op list) w = Inr w' \<and>
    released w'"
proof -
  obtain w where w: "world_run sample_ops world_start = Inr w" "wd_global w"
    "wd_pools w = sample_pools" "{j. conn_alive w j} = {0}"
    using sample_world by blast
  have "\<forall>po \<in> set (wd_pools w). jp_live po \<longrightarrow> jp_parent po \<noteq> No_Parent" by (simp add: w(3) sample_pools_def)
  moreover have "set [0] = {j. conn_alive w j}" by (simp add: w(4))
  ultimately show ?thesis
    using teardown_releases [OF sample_follows w(1,2), of "[0]" 0] w(1) by auto
qed



text \<open>
  C32: \<open>SSL.setVerify\<close> on one connection decides for all connections of its context: after
  it has asked for no verification, the verification callback accepts every certificate of
  every other connection, whatever OpenSSL found.
\<close>

theorem setVerify_disables_all:
  assumes "follows legal world_exec ops world_start" and "world_run ops world_start = Inr w"
    and "conn_alive w i" and "conn_alive w j" and "cl_ctx (wd_conns w ! i) = cl_ctx (wd_conns w ! j)"
    and "legal w (Op_Set_Verify j store level depth)" and "level = SSL_CVERIFY_NONE \<or> level = SSL_CVERIFY_UNSET"
  shows "\<exists>w' res w''. w_set_verify j store level depth w = Inr w' \<and>
    SSL_callback_SSL_verify ssl (sl_ctxt (wd_ctxs w' ! cl_ctx (wd_conns w' ! i)))
      (cs_con (cl_conn (wd_conns w' ! i))) ok ctx = Inr res \<and> vr_ok res \<and>
    w_verify i ssl ok ctx w' = Inr w''"
proof -
  let ?k = "cl_ctx (wd_conns w ! j)"
  let ?c = "set_verify_fields store level depth (sl_ctxt (wd_ctxs w ! ?k))"
  let ?w = "put_ctx ?k ?c w"
  have ok: "world_ok w"
    using world.run [OF world_inv_start assms(1)] assms(2) by (simp add: world_run_def world_inv_def)
  have k: "ctx_alive w ?k" "?k < length (wd_ctxs w)" "c_ctx (sl_ctxt (wd_ctxs w ! ?k)) \<noteq> None"
    using assms(6) by (auto simp: ctx_alive_def)
  have s: "w_set_verify j store level depth w = Inr ?w"
    using assms(4) k by (simp add: w_set_verify_def the_client_def the_ctx_def SSL_setVerify_def Let_def)
  have conns: "wd_conns ?w = wd_conns w" "conn_alive ?w i" "ctx_alive ?w ?k" "sl_ctxt (wd_ctxs ?w ! ?k) = ?c"
    using assms(3) k(1,2) by (auto simp: put_ctx_def conn_alive_def ctx_alive_def)
  have "c_verify_mode ?c = SSL_CVERIFY_NONE"
    using assms(7) by (auto simp: set_verify_fields_def Let_def)
  then obtain res where res: "SSL_callback_SSL_verify ssl ?c (cs_con (cl_conn (wd_conns w ! i))) ok ctx = Inr res" "vr_ok res"
    by (auto simp: SSL_callback_SSL_verify_def Let_def)
  have "cs_ssl_live (cl_conn (wd_conns w ! i)) \<and> cs_pool_live (cl_conn (wd_conns w ! i))"
    using conn_okD(1,2) [OF ok assms(3)] assms(5) k(1) by (simp add: conn_ok_def)
  with conns res(1) assms(5) have "\<exists>w''. w_verify i ssl ok ctx ?w = Inr w''"
    by (simp add: w_verify_def the_client_def the_conn_def the_ctx_def)
  with s res conns(1,4) assms(5) show ?thesis by auto
qed

theorem setVerify_disables_all_witness:
  "\<exists>w w' res. world_run (take 8 sample_ops) world_start = Inr w \<and>
    w_set_verify 0 None SSL_CVERIFY_NONE 0 w = Inr w' \<and>
    SSL_callback_SSL_verify (sample_ssl 1) (sl_ctxt (wd_ctxs w' ! cl_ctx (wd_conns w' ! 1)))
      (cs_con (cl_conn (wd_conns w' ! 1))) False (sample_store\<lparr>sc_error := X509_V_ERR_CERT_REVOKED\<rparr>) = Inr res \<and> vr_ok res"
proof -
  obtain c where c: "fst (SSLContext_make (sample_make\<lparr>m_ctx_new := \<lambda>m. Some 1\<rparr>) 0x30 1) = Some c" "c_ctx c = Some 1"
    using sample_make_ctx by blast
  have m: "m_ctx_new sample_make = (\<lambda>_. Some 1)" "m_sha1 sample_make = (\<lambda>_. replicate 20 0)"
    by (simp_all add: sample_make_def)
  have f: "follows legal world_exec (take 8 sample_ops) world_start"
    using c by (simp add: sample_eval m)
  have "\<exists>w. world_run (take 8 sample_ops) world_start = Inr w \<and> conn_alive w 0 \<and> conn_alive w 1 \<and>
      cl_ctx (wd_conns w ! 1) = cl_ctx (wd_conns w ! 0) \<and> ctx_alive w (cl_ctx (wd_conns w ! 0)) \<and>
      c_ctx (sl_ctxt (wd_ctxs w ! cl_ctx (wd_conns w ! 0))) \<noteq> None"
    using c by (simp add: world_run_def sample_eval m)
  then obtain w where w: "world_run (take 8 sample_ops) world_start = Inr w" "conn_alive w 1" "conn_alive w 0"
    "cl_ctx (wd_conns w ! 1) = cl_ctx (wd_conns w ! 0)" "ctx_alive w (cl_ctx (wd_conns w ! 0))"
    "c_ctx (sl_ctxt (wd_ctxs w ! cl_ctx (wd_conns w ! 0))) \<noteq> None"
    by blast
  have "legal w (Op_Set_Verify 0 None SSL_CVERIFY_NONE 0)" using w by simp
  from setVerify_disables_all [OF f w(1-4) this, of "sample_ssl 1" False "sample_store\<lparr>sc_error := X509_V_ERR_CERT_REVOKED\<rparr>"] w(1)
  show ?thesis by blast
qed

end
