(* ===== verification/Process.thy ===== *)
theory Process
  imports Lifecycle
begin

text \<open>
  The native library in a Java process: the state of \<open>Tcn_Library\<close> (static variables of
  \<^verbatim>\<open>native/src/jnilib.c\<close> and \<^verbatim>\<open>native/src/ssl.c\<close>) together with the objects of
  \<open>Lifecycle\<close>. The two meet where the library is initialised and terminated, and in
  \<open>newSSL\<close>: it stores its counters under the indices that \<open>SSL.initialize\<close> obtained, and seeds
  the random numbers with the file of its context, or else the one given to \<open>randSet\<close>.
\<close>

section \<open>State and operations\<close>

record process =
  pr_lib :: lib
  pr_world :: world

definition process_start :: process where
  "process_start = \<lparr>pr_lib = lib_start, pr_world = world_start\<rparr>"

datatype ('c, 'r) process_op =
    Start bool
  | Stop
  | Initialize init_env
  | Rand_File "byte list option"
  | New_SSL nat new_env bool rand_env int
  | Objects "('c, 'r) world_op"

text \<open>OpenSSL stores application data under the indices that it gave out, which are not negative.\<close>

definition index_env :: "lib \<Rightarrow> new_env \<Rightarrow> new_env" where
  "index_env s env = env\<lparr>w_idx3 := 0 \<le> l_idx3 s, w_idx4 := 0 \<le> l_idx4 s\<rparr>"

text \<open>\<open>newSSL\<close> seeds when it has made a connection.\<close>

definition p_new_ssl :: "nat \<Rightarrow> new_env \<Rightarrow> bool \<Rightarrow> rand_env \<Rightarrow> int \<Rightarrow> process \<Rightarrow> process run" where
  "p_new_ssl k env server renv v p =
     run_bind (the_ctx k (pr_world p)) (\<lambda>c.
     run_bind (w_new_ssl k (index_env (pr_lib p) env) server (pr_world p)) (\<lambda>w.
     if length (wd_conns w) = length (wd_conns (pr_world p)) then Inr (p\<lparr>pr_world := w\<rparr>)
     else run_bind (seed_connection renv v (c_rand_file c) (pr_lib p)) (\<lambda>s.
       Inr (p\<lparr>pr_lib := s, pr_world := w\<rparr>))))"

text \<open>
  \<open>Library.terminate\<close> destroys the global pool: first the pools below it, then the cleanup of
  the SSL part runs.
\<close>

definition p_stop :: "process \<Rightarrow> process run" where
  "p_stop p =
     run_bind (w_lib_term (pr_world p)) (\<lambda>w.
     run_bind (Library_terminate (pr_lib p)) (\<lambda>s. Inr (p\<lparr>pr_lib := s, pr_world := w\<rparr>)))"

fun process_exec :: "('c, 'r) process_op \<Rightarrow> process \<Rightarrow> process run" where
  "process_exec (Start ok) p =
     Inr (p\<lparr>pr_lib := snd (Library_initialize ok (pr_lib p)), pr_world := w_lib_init ok (pr_world p)\<rparr>)"
| "process_exec Stop p = p_stop p"
| "process_exec (Initialize env) p =
     run_bind (SSL_initialize env (pr_lib p)) (\<lambda>(rv, s). Inr (p\<lparr>pr_lib := s\<rparr>))"
| "process_exec (Rand_File f) p = run_bind (randSet f (pr_lib p)) (\<lambda>s. Inr (p\<lparr>pr_lib := s\<rparr>))"
| "process_exec (New_SSL k env server renv v) p = p_new_ssl k env server renv v p"
| "process_exec (Objects op) p = run_bind (world_exec op (pr_world p)) (\<lambda>w. Inr (p\<lparr>pr_world := w\<rparr>))"

definition process_run :: "('c, 'r) process_op list \<Rightarrow> process \<Rightarrow> process run" where
  "process_run = run_ops process_exec"

text \<open>
  The discipline: that of the objects, and moreover: \<open>newSSL\<close> after \<open>SSL.initialize\<close>, whose
  number of calls is bounded; \<open>randSet\<close> while the library is initialised; the global file name
  is used only under the global pool it was given under.
\<close>

definition object_op :: "('c, 'r) world_op \<Rightarrow> bool" where
  "object_op op \<longleftrightarrow> (case op of Op_Init _ \<Rightarrow> False | Op_Term \<Rightarrow> False | Op_New _ _ _ \<Rightarrow> False | _ \<Rightarrow> True)"

fun process_legal :: "process \<Rightarrow> ('c, 'r) process_op \<Rightarrow> bool" where
  "process_legal p (Start ok) \<longleftrightarrow> True"
| "process_legal p Stop \<longleftrightarrow> True"
| "process_legal p (Initialize env) \<longleftrightarrow>
     l_ssl_initialized (pr_lib p) < 2 ^ 31 - 1 \<and> safe (read_rand_file (pr_lib p))"
| "process_legal p (Rand_File f) \<longleftrightarrow> f = None \<or> l_pool (pr_lib p) \<noteq> None"
| "process_legal p (New_SSL k env server renv v) \<longleftrightarrow>
     ctx_alive (pr_world p) k \<and> w_malloc1 env \<and> w_malloc2 env \<and>
     0 \<le> l_idx3 (pr_lib p) \<and> 0 \<le> l_idx4 (pr_lib p) \<and>
     (c_rand_file (sl_ctxt (wd_ctxs (pr_world p) ! k)) = None \<longrightarrow> safe (read_rand_file (pr_lib p)))"
| "process_legal p (Objects op) \<longleftrightarrow> object_op op \<and> legal (pr_world p) op"

section \<open>The invariant\<close>

definition process_ok :: "process \<Rightarrow> bool" where
  "process_ok p \<longleftrightarrow> world_inv (pr_world p) \<and> lib_ok (pr_lib p) \<and>
     (wd_global (pr_world p) \<longleftrightarrow> l_pool (pr_lib p) \<noteq> None)"

lemma process_ok_start: "process_ok process_start"
  by (simp add: process_ok_def process_start_def world_inv_start lib_ok_start) (simp add: world_start_def lib_start_def)

lemma process_okD:
  assumes "process_ok p"
  shows "world_inv (pr_world p)" "world_ok (pr_world p)" "lib_ok (pr_lib p)"
    "wd_global (pr_world p) \<longleftrightarrow> l_pool (pr_lib p) \<noteq> None"
  using assms unfolding process_ok_def world_inv_def by blast+

text \<open>The objects leave the global pool alone.\<close>

lemma w_pool_destroy_global:
  assumes "world_ok w" and "legal w (Op_Pool_Destroy q)" and "w_pool_destroy q w = Inr w'"
  shows "wd_global w' = wd_global w"
proof (cases "wd_global w")
  case True
  then have "w' = without_subtree q w"
    using w_pool_destroy_result(1) [OF assms(1), of q] assms(2,3) by simp
  then show ?thesis by (simp add: without_subtree_def fold_without_pool)
qed (use assms(3) in \<open>simp add: w_pool_destroy_def\<close>)

lemma object_op_global:
  assumes "object_op op" and "world_ok w" and "legal w op" and "world_exec op w = Inr w'"
  shows "wd_global w' = wd_global w"
proof (cases op)
  case (Op_Pool_Create ok parent)
  then show ?thesis
    using assms(4) by (auto simp: w_pool_create_def new_pool_def split: option.split_asm if_split_asm)
next
  case (Op_Pool_Destroy q)
  then show ?thesis using assms(2-4) w_pool_destroy_global [of w q w'] by simp
qed (use assms object_op_pools [of op w w'] in \<open>auto simp: object_op_def pool_op_def same_pools_def\<close>)

text \<open>Each operation keeps the invariant.\<close>

lemma start_ok:
  assumes "process_ok p"
  shows "ensures (process_exec (Start ok) p) process_ok"
proof -
  have "world_inv (w_lib_init ok (pr_world p))" by (rule w_lib_init_inv [OF process_okD(1) [OF assms]])
  then show ?thesis
    using process_okD(3,4) [OF assms]
    by (auto simp: process_ok_def w_lib_init_def Library_initialize_def lib_ok_def Let_def split: if_splits)
qed

lemma library_terminate_none: "l_pool s = None \<Longrightarrow> Library_terminate s = Inr s"
  by (simp add: Library_terminate_def)

lemma w_lib_term_none: "\<not> wd_global w \<Longrightarrow> w_lib_term w = Inr w"
  by (simp add: w_lib_term_def)

lemma terminated_global: "\<not> wd_global (terminated w)"
  by (simp add: terminated_def fold_without_pool)

lemma stop_ok:
  assumes "process_ok p"
  shows "ensures (p_stop p) (\<lambda>p'. process_ok p' \<and> pr_world p' = terminated (pr_world p) \<and>
    l_ssl_initialized (pr_lib p') = 0 \<and> l_pool (pr_lib p') = None)"
proof -
  have ok: "world_ok (pr_world p)" "lib_ok (pr_lib p)"
    and g: "wd_global (pr_world p) \<longleftrightarrow> l_pool (pr_lib p) \<noteq> None"
    using process_okD [OF assms] by simp_all
  note w = w_lib_term_result [OF ok(1)] terminated_inv [OF process_okD(1) [OF assms]]
  show ?thesis
  proof (cases "l_pool (pr_lib p)")
    case None
    then show ?thesis
      using assms ok w g by (auto simp: p_stop_def library_terminate_none terminated_def lib_ok_def)
  next
    case (Some q)
    show ?thesis
      unfolding p_stop_def w(1) run_bind.simps ensures_simps
      by (rule ensures_mono [OF ssl_init_cleanup_ok [OF ok(2) Some]])
        (auto simp: process_ok_def w(3) terminated_global)
  qed
qed

lemma initialize_ok:
  assumes "process_ok p" and "process_legal p (Initialize env)"
  shows "ensures (process_exec (Initialize env) p) process_ok"
proof -
  obtain global where g: "read_rand_file (pr_lib p) = Inr global"
    using assms(2) by (auto elim: safeE)
  show ?thesis
    unfolding process_exec.simps ensures_simps
    by (rule ensures_mono [OF SSL_initialize_ok [OF _ g]]) (use assms in \<open>auto simp: process_ok_def\<close>)
qed

lemma seed_connection_ok:
  assumes "f = None \<longrightarrow> safe (read_rand_file s)"
  shows "ensures (seed_connection env v f s) (\<lambda>s'. \<exists>counter. s' = s\<lparr>l_counter := counter\<rparr>)"
proof -
  obtain global where g: "(if f = None then read_rand_file s else Inr None) = Inr global"
    using assms by (cases "f = None") (auto elim: safeE)
  show ?thesis
    unfolding seed_connection_def g run_bind.simps ensures_simps
    by (rule ensures_mono [OF SSL_rand_seed_safe]) auto
qed

lemma lib_ok_counter [simp]: "lib_ok (s\<lparr>l_counter := n\<rparr>) = lib_ok s"
  by (simp add: lib_ok_def)

lemma new_ssl_ok:
  assumes "process_ok p" and l: "process_legal p (New_SSL k env server renv v)"
  shows "ensures (p_new_ssl k env server renv v p) process_ok"
proof -
  let ?w = "pr_world p"
  let ?c = "sl_ctxt (wd_ctxs ?w ! k)"
  have ok: "world_ok ?w" "lib_ok (pr_lib p)" and g: "wd_global ?w \<longleftrightarrow> l_pool (pr_lib p) \<noteq> None"
    using process_okD [OF assms(1)] by simp_all
  have "w_malloc1 (index_env (pr_lib p) env)" "w_malloc2 (index_env (pr_lib p) env)"
    "w_idx3 (index_env (pr_lib p) env)" "w_idx4 (index_env (pr_lib p) env)" and k: "ctx_alive ?w k"
    using l by (simp_all add: index_env_def)
  from w_new_ssl_ok [OF ok(1) k this(1-4), of server] obtain w
    where w: "w_new_ssl k (index_env (pr_lib p) env) server ?w = Inr w" "world_ok w"
    by (auto simp: ensures_def)
  then have inv: "world_inv w" "wd_global w = wd_global ?w"
    using w_new_ssl_pools [OF w(1)] process_okD(1) [OF assms(1)] ctxs_typed_same [of w ?w]
    by (simp_all add: world_inv_def same_pools_def)
  obtain counter where s: "seed_connection renv v (c_rand_file ?c) (pr_lib p) = Inr ((pr_lib p)\<lparr>l_counter := counter\<rparr>)"
    using seed_connection_ok [of "c_rand_file ?c" "pr_lib p" renv v] l by (auto simp: ensures_def)
  show ?thesis
    using ok(2) g w k inv by (simp add: p_new_ssl_def the_ctx_def s process_ok_def)
qed

interpretation process: discipline "process_exec :: ('c, 'r) process_op \<Rightarrow> process \<Rightarrow> process run" process_ok process_legal
proof
  fix p :: process and op :: "('c, 'r) process_op"
  assume ok: "process_ok p" and l: "process_legal p op"
  show "ensures (process_exec op p) process_ok"
  proof (cases op)
    case (Objects wop)
    have "ensures (world_exec wop (pr_world p)) world_inv"
      using process_okD(1) [OF ok] l Objects by (intro world.step) simp_all
    then show ?thesis
      using process_okD(2-4) [OF ok] l Objects object_op_global [of wop "pr_world p"]
      by (auto simp: process_ok_def elim!: ensures_mono)
  next
    case (Rand_File f)
    then show ?thesis using ok l by (cases f) (auto simp: process_ok_def randSet_def lib_ok_def)
  next
    case Stop
    then show ?thesis using stop_ok [OF ok] by (auto elim: ensures_mono)
  qed (use start_ok initialize_ok new_ssl_ok ok l in auto)
qed

section \<open>Properties\<close>


definition busy_ops :: "(nat, nat) process_op list" where
  "busy_ops = [Start True, Initialize sample_init_env, Rand_File (Some [120]), Objects (Op_Pool_Create True None),
     Objects (Op_Pool_Create True (Some 0)), Objects (Op_Make 1 sample_make 0x30 1),
     Objects (Op_Setting 0 (Set_Random (Some [121]))),
     New_SSL 0 sample_new True \<lparr>q_file_name = None, q_egd = None, q_load_file = \<lambda>_. 0\<rparr> 5,
     Objects (Op_Info 0 0x20), Objects (Op_Ctx_Free 0)]"

lemmas process_eval = process_start_def lib_start_def p_new_ssl_def index_env_def Library_initialize_def
  SSL_initialize_def SSL_init_app_data_idx_def init_bio_methods_def randSet_def read_rand_file_def
  seed_connection_def SSL_rand_seed_def ssl_rand_load_file_def ssl_rand_choosenum_def object_op_def
  setRandom_def

lemma busy_process:
  "follows process_legal process_exec busy_ops process_start \<and>
   (\<exists>p. process_run busy_ops process_start = Inr p \<and> wd_global (pr_world p) \<and>
     wd_pools (pr_world p) = sample_pools \<and> {j. conn_alive (pr_world p) j} = {0})"
proof -
  obtain c where c: "fst (SSLContext_make (sample_make\<lparr>m_ctx_new := \<lambda>m. Some 1\<rparr>) 0x30 1) = Some c" "c_ctx c = Some 1"
    using sample_make_ctx by blast
  have m: "m_ctx_new sample_make = (\<lambda>_. Some 1)" "m_sha1 sample_make = (\<lambda>_. replicate 20 0)"
    by (simp_all add: sample_make_def)
  have e: "strcmp [x] (ascii ''builtin'') \<noteq> 0" "take 4 [x] \<noteq> ascii ''egd:''" for x
    by (simp_all add: ascii_def)
  show ?thesis
    using c by (auto simp: process_run_def busy_ops_def process_eval sample_init_env_def sample_eval sample_pools_def m e)
qed


lemma process_run_objects:
  "process_run (map Objects wops) p = run_bind (world_run wops (pr_world p)) (\<lambda>w. Inr (p\<lparr>pr_world := w\<rparr>))"
proof (induction wops arbitrary: p)
  case (Cons op wops)
  then show ?case
    by (cases "world_exec op (pr_world p)") (simp_all add: process_run_def world_run_def)
qed (simp add: process_run_def world_run_def)

lemma process_run_append:
  "process_run (ops @ ops') p = run_bind (process_run ops p) (process_run ops')"
  by (simp add: process_run_def run_ops_append)



text \<open>
  C36: a connection made before \<open>SSL.initialize\<close> was ever called is never released
  completely: its \<open>SSL\<close> has no counters, so that \<open>freeSSL\<close> leaves its pool and both counters
  behind, and the cleanup of the pool, which runs with the pool of the context, then uses the
  freed \<open>SSL\<close>.
\<close>

theorem new_ssl_without_initialize:
  assumes "l_idx3 (pr_lib p) < 0" and "l_idx4 (pr_lib p) < 0"
    and "newSSL (index_env (pr_lib p) env) server c = Inr (Some s, evs)"
  shows "\<exists>s'. freeSSL s = Inr s' \<and> cs_pool_live s' \<and> cs_handshakeCount s' \<noteq> None \<and> cs_destroyCount s' \<noteq> None \<and>
    destroy_parent s' = Inl Use_After_Free"
proof -
  have "cs_ssl_live s" "cs_pool_live s" "\<not> cs_data3 s" "\<not> cs_data4 s" "cs_handshakeCount s = Some 0" "cs_destroyCount s = Some 0"
    using assms by (auto simp: newSSL_def index_env_def split: option.splits if_split_asm)
  then show ?thesis
    by (simp add: freeSSL_def destroy_parent_def destroy_conn_pool_def ssl_con_pool_cleanup_def)
qed

theorem new_ssl_without_initialize_witness:
  "\<exists>s evs s'. newSSL (index_env lib_start sample_new) True zero_ctxt = Inr (Some s, evs) \<and> freeSSL s = Inr s' \<and>
    destroy_parent s' = Inl Use_After_Free"
proof -
  have i: "l_idx3 (pr_lib process_start) < 0" "l_idx4 (pr_lib process_start) < 0"
    by (simp_all add: process_start_def lib_start_def)
  obtain s evs where n: "newSSL (index_env (pr_lib process_start) sample_new) True zero_ctxt = Inr (Some s, evs)"
    by (simp add: newSSL_def sample_new_def index_env_def)
  have "pr_lib process_start = lib_start" by (simp add: process_start_def)
  with new_ssl_without_initialize [OF i n] n show ?thesis by auto
qed

end
