(* ===== verification/Win32_System.thy ===== *)
theory Win32_System
  imports Ssl_Certs
begin

text \<open>
  The part for Windows: \<^verbatim>\<open>native/os/win32/system.c\<close>, with the password dialog, and the branch
  of \<open>SSL_password_prompt\<close> (\<^verbatim>\<open>native/src/sslutils.c\<close>) that uses it.

  The functions of Windows are a parameter (\<open>win_env\<close>): which handles can be opened, the
  messages that \<open>PeekMessage\<close> finds, the text of the edit field. The loop over messages may
  wait forever for a key: then the result is \<open>None\<close>. The password is the buffer itself, of
  \<open>SSL_MAX_PASSWORD_LEN\<close> bytes. The lemmas show when the prompt returns, that it stays in the
  buffer and gives what the prompt of the other platforms gives for the same text, and when it
  leaves the process with the window station of the user.
\<close>

section \<open>Windows\<close>

record win_msg =
  msg_message :: nat
  msg_wParam :: "64 word"

text \<open>
  What has been done about messages: those that were dispatched, and the pauses of 100 ms.
\<close>

datatype win_call = Dispatch win_msg | Sleep_100

text \<open>
  The window station of the process, the desktop of the thread, the handles of stations and
  desktops that are open, whether the dialog is shown, and the static variables of the DLL.
\<close>

record win_state =
  ws_section :: bool
  ws_instance :: "ptr option"
  ws_station :: ptr
  ws_desktop :: ptr
  ws_handles :: "ptr list"
  ws_dialog :: bool

text \<open>
  \<open>we_text\<close>: the bytes that \<open>GetWindowText\<close> copies, without the NUL, for a buffer of a given
  size, after what has been dispatched. \<open>we_message\<close>: what the calls of \<open>PeekMessage\<close> find.
\<close>

record win_env =
  we_thread :: bool
  we_open_station :: "ptr option"
  we_open_desktop :: "ptr option"
  we_create_dialog :: "ptr option \<Rightarrow> bool"
  we_message :: "nat \<Rightarrow> win_msg option"
  we_dlg_item :: bool
  we_text :: "win_call list \<Rightarrow> nat \<Rightarrow> byte list"

definition DLL_PROCESS_DETACH :: "32 word" where "DLL_PROCESS_DETACH = 0"
definition DLL_PROCESS_ATTACH :: "32 word" where "DLL_PROCESS_ATTACH = 1"

definition WM_KEYUP :: nat where "WM_KEYUP = 0x101"
definition VK_RETURN :: "32 word" where "VK_RETURN = 0x0D"
definition VK_ESCAPE :: "32 word" where "VK_ESCAPE = 0x1B"

lemmas win_constants = DLL_PROCESS_DETACH_def DLL_PROCESS_ATTACH_def WM_KEYUP_def VK_RETURN_def VK_ESCAPE_def

definition DllMain :: "ptr \<Rightarrow> 32 word \<Rightarrow> win_state \<Rightarrow> bool \<times> win_state" where
  "DllMain instance' reason s =
     (True,
      if reason = DLL_PROCESS_ATTACH then s\<lparr>ws_section := True, ws_instance := Some instance'\<rparr>
      else if reason = DLL_PROCESS_DETACH then s\<lparr>ws_section := False\<rparr>
      else s)"

section \<open>The password dialog\<close>

text \<open>\<open>(int)msg.wParam\<close> keeps the lower 32 bits.\<close>

definition virt_key :: "win_msg \<Rightarrow> 32 word" where
  "virt_key m = ucast (msg_wParam m)"

datatype dialog_end = Escaped | Returned

partial_function (option) message_loop ::
  "(nat \<Rightarrow> win_msg option) \<Rightarrow> nat \<Rightarrow> win_call list \<Rightarrow> (dialog_end \<times> win_call list) option" where
  "message_loop src k calls =
     (case src k of
        None \<Rightarrow> message_loop src (Suc k) (calls @ [Sleep_100])
      | Some m \<Rightarrow>
          if msg_message m = WM_KEYUP \<and> virt_key m = VK_ESCAPE then Some (Escaped, calls)
          else if msg_message m = WM_KEYUP \<and> virt_key m = VK_RETURN then Some (Returned, calls)
          else message_loop src (Suc k) (calls @ [Dispatch m]))"

text \<open>Writing to a buffer whose bytes are all initialised.\<close>

definition wrn :: "byte list \<Rightarrow> nat \<Rightarrow> byte list \<Rightarrow> byte list run" where
  "wrn m i bs = (if i + length bs \<le> length m then Inr (take i m @ bs @ drop (i + length bs) m) else Inl Out_Of_Bounds)"

definition read_edit :: "win_env \<Rightarrow> win_call list \<Rightarrow> byte list \<Rightarrow> byte list run" where
  "read_edit env calls buf =
     (if we_dlg_item env then
        (let text = we_text env calls (SSL_MAX_PASSWORD_LEN - 1) in
         run_bind (wrn buf 0 (text @ [0])) (\<lambda>buf. wrn buf (length text) [0]))
      else Inr buf)"

definition CloseHandle :: "ptr \<Rightarrow> win_state \<Rightarrow> win_state" where
  "CloseHandle h s = s\<lparr>ws_handles := remove1 h (ws_handles s)\<rparr>"

text \<open>The exit code of the thread, the state of Windows and the password.\<close>

definition password_thread ::
  "win_env \<Rightarrow> win_state \<Rightarrow> byte list \<Rightarrow> (nat \<times> win_state \<times> byte list) run option" where
  "password_thread env s buf =
     (let hwss = ws_station s; hwds = ws_desktop s in
      case we_open_station env of
        None \<Rightarrow> Some (Inr (1, s, buf))
      | Some hwsu \<Rightarrow>
          (let s = s\<lparr>ws_station := hwsu, ws_handles := hwsu # ws_handles s\<rparr> in
           case we_open_desktop env of
             None \<Rightarrow> Some (Inr (1, CloseHandle hwsu (s\<lparr>ws_station := hwss\<rparr>), buf))
           | Some hwdu \<Rightarrow>
               (let s = s\<lparr>ws_desktop := hwdu, ws_handles := hwdu # ws_handles s\<rparr> in
                if \<not> we_create_dialog env (ws_instance s) then Some (Inr (1, s, buf))
                else
                  (let s = s\<lparr>ws_dialog := True\<rparr> in
                   Option.bind (message_loop (we_message env) 0 []) (\<lambda>(how, calls).
                    Some (run_bind (if how = Returned then read_edit env calls buf else Inr buf) (\<lambda>buf.
                      Inr (0, CloseHandle hwsu (CloseHandle hwdu
                        (s\<lparr>ws_dialog := False, ws_desktop := hwds, ws_station := hwss\<rparr>)), buf))))))))"

text \<open>\<open>strlen\<close> of a buffer without NUL reads behind its end.\<close>

definition buf_strlen :: "byte list \<Rightarrow> nat run" where
  "buf_strlen buf = (if 0 \<in> set buf then Inr (strlen buf) else Inl Out_Of_Bounds)"

text \<open>Without a thread, waiting for it and closing it fail, and the password stays as it is.\<close>

definition WIN32_SSL_password_prompt ::
  "win_env \<Rightarrow> win_state \<Rightarrow> byte list \<Rightarrow> (int \<times> win_state \<times> byte list) run option" where
  "WIN32_SSL_password_prompt env s buf =
     Option.bind (if we_thread env then password_thread env s buf else Some (Inr (0, s, buf))) (\<lambda>r.
       Some (run_bind r (\<lambda>(_, s, buf). run_bind (buf_strlen buf) (\<lambda>n. Inr (int n, s, buf)))))"

text \<open>\<open>if ((r = strchr(data->password, ch))) { *r = '\0'; rv--; }\<close>\<close>

definition cut_at :: "byte \<Rightarrow> int \<times> byte list \<Rightarrow> int \<times> byte list" where
  "cut_at ch r =
     (let (rv, buf) = r in
      if ch \<in> set (c_str buf) then (rv - 1, buf[length (takeWhile (\<lambda>b. b \<noteq> ch) (c_str buf)) := 0]) else (rv, buf))"

text \<open>\<open>SSL_password_prompt\<close> on Windows.\<close>

definition SSL_password_prompt_WIN32 ::
  "win_env \<Rightarrow> win_state \<Rightarrow> byte list \<Rightarrow> (int \<times> win_state \<times> byte list) run option" where
  "SSL_password_prompt_WIN32 env s password =
     (case wrn password 0 [0] of
        Inl f \<Rightarrow> Some (Inl f)
      | Inr buf \<Rightarrow>
          Option.bind (WIN32_SSL_password_prompt env s buf) (\<lambda>r.
            Some (run_bind r (\<lambda>(_, s, buf).
              run_bind (buf_strlen buf) (\<lambda>n.
                (let (rv, buf) = (if n > 0 then cut_at 13 (cut_at 10 (int n, buf)) else (int n, buf))
                 in Inr (rv, s, buf)))))))"


section \<open>When the prompt returns\<close>

text \<open>
  The specification of the loop: how a message closes the dialog, and what is done about every
  other answer of \<open>PeekMessage\<close>.
\<close>

definition closing :: "win_msg option \<Rightarrow> dialog_end option" where
  "closing r =
     (case r of
        None \<Rightarrow> None
      | Some m \<Rightarrow>
          if msg_message m \<noteq> WM_KEYUP then None
          else if virt_key m = VK_ESCAPE then Some Escaped
          else if virt_key m = VK_RETURN then Some Returned
          else None)"

definition waiting :: "win_msg option \<Rightarrow> win_call" where
  "waiting r = (case r of None \<Rightarrow> Sleep_100 | Some m \<Rightarrow> Dispatch m)"

lemma message_loop_step:
  "message_loop src k calls =
     (case closing (src k) of
        Some how \<Rightarrow> Some (how, calls)
      | None \<Rightarrow> message_loop src (Suc k) (calls @ [waiting (src k)]))"
  by (subst message_loop.simps) (auto simp: closing_def waiting_def split: option.splits)

text \<open>The dialog ends with the first message that closes it.\<close>

lemma message_loop_first:
  assumes "closing (src n) = Some how" and "k \<le> n" and "\<And>j. k \<le> j \<Longrightarrow> j < n \<Longrightarrow> closing (src j) = None"
  shows "message_loop src k calls = Some (how, calls @ map (waiting \<circ> src) [k..<n])"
  using assms(2,3)
proof (induction "n - k" arbitrary: k calls)
  case 0
  then show ?case using assms(1) by (simp add: message_loop_step [of src k])
next
  case (Suc d)
  then have "k < n" by simp
  have "message_loop src (Suc k) (calls @ [waiting (src k)])
      = Some (how, (calls @ [waiting (src k)]) @ map (waiting \<circ> src) [Suc k..<n])"
    by (rule Suc.hyps(1)) (use Suc.hyps(2) Suc.prems in auto)
  then show ?case
    using Suc.prems(2) [of k] \<open>k < n\<close> by (simp add: message_loop_step [of src k] upt_conv_Cons)
qed

lemma message_loop_returns:
  assumes "message_loop src k calls = Some r"
  shows "\<exists>n how. closing (src n) = Some how"
proof (rule message_loop.raw_induct [where P = "\<lambda>src k calls r. \<exists>n how. closing (src n) = Some how", OF _ assms])
  fix loop :: "(nat \<Rightarrow> win_msg option) \<Rightarrow> nat \<Rightarrow> win_call list \<Rightarrow> (dialog_end \<times> win_call list) option"
    and src k calls r
  assume IH: "\<And>src k calls r. loop src k calls = Some r \<Longrightarrow> \<exists>n how. closing (src n) = Some how"
    and eq: "(case src k of
        None \<Rightarrow> loop src (Suc k) (calls @ [Sleep_100])
      | Some m \<Rightarrow>
          if msg_message m = WM_KEYUP \<and> virt_key m = VK_ESCAPE then Some (Escaped, calls)
          else if msg_message m = WM_KEYUP \<and> virt_key m = VK_RETURN then Some (Returned, calls)
          else loop src (Suc k) (calls @ [Dispatch m])) = Some r"
  show "\<exists>n how. closing (src n) = Some how"
  proof (cases "closing (src k)")
    case None
    then show ?thesis
      using eq IH by (cases "src k") (fastforce simp: closing_def split: if_split_asm)+
  qed blast
qed

lemma message_loop_ends:
  "(\<exists>r. message_loop src 0 calls = Some r) \<longleftrightarrow> (\<exists>n how. closing (src n) = Some how)"
proof
  assume "\<exists>n how. closing (src n) = Some how"
  then have ex: "\<exists>n. closing (src n) \<noteq> None" by auto
  then obtain how where "closing (src (LEAST n. closing (src n) \<noteq> None)) = Some how"
    using LeastI_ex [OF ex] by blast
  then show "\<exists>r. message_loop src 0 calls = Some r"
    using message_loop_first [of src "LEAST n. closing (src n) \<noteq> None" how 0] not_less_Least by blast
qed (auto dest: message_loop_returns)

text \<open>The dialog is shown when the thread and both handles exist and it can be created.\<close>

definition dialog_shown :: "win_env \<Rightarrow> win_state \<Rightarrow> bool" where
  "dialog_shown env s \<longleftrightarrow> we_thread env \<and> we_open_station env \<noteq> None \<and> we_open_desktop env \<noteq> None \<and>
     we_create_dialog env (ws_instance s)"

lemma password_thread_hidden:
  assumes "\<not> dialog_shown env s" and "we_thread env"
  shows "\<exists>s'. password_thread env s buf = Some (Inr (1, s', buf))"
  using assms by (auto simp: dialog_shown_def password_thread_def Let_def split: option.splits)

lemma password_thread_shown:
  assumes "dialog_shown env s"
  shows "password_thread env s buf =
    Option.bind (message_loop (we_message env) 0 []) (\<lambda>(how, calls).
      Some (run_bind (if how = Returned then read_edit env calls buf else Inr buf)
        (\<lambda>buf. Inr (0, s\<lparr>ws_dialog := False\<rparr>, buf))))"
proof -
  obtain hwsu hwdu where "we_open_station env = Some hwsu" "we_open_desktop env = Some hwdu"
    and "we_create_dialog env (ws_instance s)"
    using assms by (auto simp: dialog_shown_def)
  then show ?thesis by (simp add: password_thread_def Let_def CloseHandle_def)
qed

text \<open>
  C28: on Windows the prompt for a password returns unless the dialog is shown and waits for
  ever for the release of Escape or Return.
\<close>

theorem SSL_password_prompt_WIN32_waits_iff:
  "SSL_password_prompt_WIN32 env s password = None \<longleftrightarrow>
     password \<noteq> [] \<and> dialog_shown env s \<and> (\<forall>n. closing (we_message env n) = None)"
proof (cases "dialog_shown env s")
  case True
  then have "we_thread env" by (simp add: dialog_shown_def)
  have "message_loop (we_message env) 0 [] = None \<longleftrightarrow> (\<forall>n. closing (we_message env n) = None)"
    using message_loop_ends [of "we_message env" "[]"] by (auto simp: option.collapse [symmetric])
  then show ?thesis
    using True \<open>we_thread env\<close>
    by (cases password) (auto simp: password_thread_shown [OF True] SSL_password_prompt_WIN32_def WIN32_SSL_password_prompt_def wrn_def bind_eq_None_conv)
next
  case False
  have "we_thread env \<Longrightarrow> password_thread env s buf \<noteq> None" for buf
    using password_thread_hidden [OF False, of buf] by auto
  then show ?thesis
    using False
    by (cases "wrn password 0 [0]")
      (auto simp: SSL_password_prompt_WIN32_def WIN32_SSL_password_prompt_def bind_eq_None_conv)
qed

section \<open>What the prompt returns\<close>

text \<open>\<open>GetWindowText\<close> as documented: at most as many characters as fit with their NUL.\<close>

definition window_text_contract :: "win_env \<Rightarrow> bool" where
  "window_text_contract env \<longleftrightarrow>
     (\<forall>calls n. length (we_text env calls n) \<le> n - 1 \<and> 0 \<notin> set (we_text env calls n))"

text \<open>The text that the user has given when the dialog is over; nothing without a dialog.\<close>

definition typed_in_dialog :: "win_env \<Rightarrow> win_state \<Rightarrow> byte list \<Rightarrow> bool" where
  "typed_in_dialog env s typed \<longleftrightarrow>
     (if dialog_shown env s then
        (\<exists>n how. closing (we_message env n) = Some how \<and> (\<forall>j < n. closing (we_message env j) = None) \<and>
          typed = (if how = Returned \<and> we_dlg_item env
                   then we_text env (map (waiting \<circ> we_message env) [0..<n]) (SSL_MAX_PASSWORD_LEN - 1) else []))
      else typed = [])"

lemma read_edit_text:
  assumes "window_text_contract env" and "length rest = 255"
  shows "\<exists>rest'. (if how = Returned then read_edit env calls (0 # rest) else Inr (0 # rest)) =
      Inr ((if how = Returned \<and> we_dlg_item env then we_text env calls 255 else []) @ 0 # rest') \<and>
    Suc (length rest') + length (if how = Returned \<and> we_dlg_item env then we_text env calls 255 else []) = 256"
proof (cases "how = Returned \<and> we_dlg_item env")
  case True
  have "length (we_text env calls 255) \<le> 254"
    using assms(1) unfolding window_text_contract_def by (metis diff_Suc_1 eval_nat_numeral(3))
  then show ?thesis
    using True assms(2)
    by (auto simp: read_edit_def SSL_MAX_PASSWORD_LEN_def wrn_def Let_def)
qed (use assms(2) in \<open>auto simp: read_edit_def\<close>)

lemma buf_strlen_nul: "0 \<notin> set t \<Longrightarrow> buf_strlen (t @ 0 # rest) = Inr (length t)"
  by (simp add: buf_strlen_def strlen_def c_str_append_nul)

lemma takeWhile_all: "y \<notin> set t \<Longrightarrow> takeWhile (\<lambda>b. b \<noteq> y) t = t"
  by (induction t) auto

lemma cut_at_text:
  assumes "0 \<notin> set t"
  shows "\<exists>rest'. cut_at ch (rv, t @ 0 # rest) =
      (if ch \<in> set t then rv - 1 else rv, takeWhile (\<lambda>b. b \<noteq> ch) t @ 0 # rest') \<and>
    length (takeWhile (\<lambda>b. b \<noteq> ch) t @ 0 # rest') = length (t @ 0 # rest)"
proof (cases "ch \<in> set t")
  case True
  then obtain a b where t: "t = a @ ch # b" "ch \<notin> set a" by (meson split_list_first)
  then have a: "takeWhile (\<lambda>b. b \<noteq> ch) t = a" by (auto simp: takeWhile_append)
  have "(t @ 0 # rest)[length a := 0] = a @ 0 # b @ 0 # rest" by (simp add: t(1))
  then show ?thesis
    using True by (simp add: cut_at_def c_str_append_nul [OF assms] a) (simp add: t(1))
next
  case False
  then have t: "takeWhile (\<lambda>b. b \<noteq> ch) t = t" by (rule takeWhile_all)
  have same: "cut_at ch (rv, t @ 0 # rest) = (rv, t @ 0 # rest)"
    using False by (simp add: cut_at_def c_str_append_nul [OF assms])
  show ?thesis
    unfolding same t using False by auto
qed

lemma takeWhile_no_cr_lf:
  "takeWhile (\<lambda>b. b \<noteq> 13) (takeWhile (\<lambda>b. b \<noteq> 10) t) = takeWhile (\<lambda>b. b \<noteq> 10 \<and> b \<noteq> (13 :: byte)) t"
  by (induction t) auto

lemma takeWhile_no_cr:
  "13 \<notin> set t \<Longrightarrow> takeWhile (\<lambda>b. b \<noteq> 10 \<and> b \<noteq> (13 :: byte)) t = takeWhile (\<lambda>b. b \<noteq> 10) t"
  by (induction t) auto

text \<open>What is left of the text after both cuts, with the value that the function returns.\<close>

lemma cut_newlines:
  assumes "0 \<notin> set t"
  shows "\<exists>rest'. cut_at 13 (cut_at 10 (rv, t @ 0 # rest)) =
      (rv - (if 10 \<in> set t then 1 else 0) - (if 13 \<in> set (takeWhile (\<lambda>b. b \<noteq> 10) t) then 1 else 0),
       takeWhile (\<lambda>b. b \<noteq> 10 \<and> b \<noteq> 13) t @ 0 # rest') \<and>
    length (takeWhile (\<lambda>b. b \<noteq> 10 \<and> b \<noteq> 13) t @ 0 # rest') = length (t @ 0 # rest)"
proof -
  let ?t = "takeWhile (\<lambda>b. b \<noteq> 10) t"
  let ?rv = "if 10 \<in> set t then rv - 1 else rv"
  obtain r1 where r1: "cut_at 10 (rv, t @ 0 # rest) = (?rv, ?t @ 0 # r1)"
    "length (?t @ 0 # r1) = length (t @ 0 # rest)"
    using cut_at_text [OF assms] by blast
  have nul: "0 \<notin> set ?t" using assms by (auto dest: set_takeWhileD)
  obtain r2 where r2: "cut_at 13 (?rv, ?t @ 0 # r1) =
      (if 13 \<in> set ?t then ?rv - 1 else ?rv, takeWhile (\<lambda>b. b \<noteq> 13) ?t @ 0 # r2)"
    "length (takeWhile (\<lambda>b. b \<noteq> 13) ?t @ 0 # r2) = length (?t @ 0 # r1)"
    using cut_at_text [OF nul] by blast
  show ?thesis
    unfolding r1(1) r2(1) using r1(2) r2(2) by (auto simp: takeWhile_no_cr_lf)
qed

text \<open>The buffer when the thread has ended.\<close>

lemma WIN32_SSL_password_prompt_text:
  assumes "window_text_contract env" and "length rest = 255" and "typed_in_dialog env s typed"
  shows "0 \<notin> set typed \<and> (\<exists>s' rest'. WIN32_SSL_password_prompt env s (0 # rest) = Some (Inr (int (length typed), s', typed @ 0 # rest')) \<and>
    length (typed @ 0 # rest') = 256)"
proof (cases "dialog_shown env s")
  case True
  then have "we_thread env" by (simp add: dialog_shown_def)
  obtain n how where n: "closing (we_message env n) = Some how" "\<forall>j < n. closing (we_message env j) = None"
    and typed: "typed = (if how = Returned \<and> we_dlg_item env
      then we_text env (map (waiting \<circ> we_message env) [0..<n]) 255 else [])"
    using assms(3) True by (auto simp: typed_in_dialog_def SSL_MAX_PASSWORD_LEN_def)
  let ?calls = "map (waiting \<circ> we_message env) [0..<n]"
  have loop: "message_loop (we_message env) 0 [] = Some (how, ?calls)"
    using message_loop_first [where src = "we_message env", OF n(1), of 0 "[]"] n(2) by simp
  have nul: "0 \<notin> set typed" using assms(1) by (simp add: typed window_text_contract_def)
  obtain rest' where r: "(if how = Returned then read_edit env ?calls (0 # rest) else Inr (0 # rest)) = Inr (typed @ 0 # rest')"
    "Suc (length rest') + length typed = 256"
    using read_edit_text [OF assms(1,2), of how ?calls] unfolding typed by blast
  have "password_thread env s (0 # rest) = Some (Inr (0, s\<lparr>ws_dialog := False\<rparr>, typed @ 0 # rest'))"
    unfolding password_thread_shown [OF True] loop by (simp add: r(1))
  then show ?thesis
    using r(2) nul \<open>we_thread env\<close> by (simp add: WIN32_SSL_password_prompt_def buf_strlen_nul)
next
  case False
  then have typed: "typed = []" using assms(3) by (simp add: typed_in_dialog_def)
  obtain s' k where "(if we_thread env then password_thread env s (0 # rest) else Some (Inr (0, s, 0 # rest)))
      = Some (Inr (k, s', [] @ 0 # rest))"
    using password_thread_hidden [OF False, of "0 # rest"] that [of 0 s] that [of 1]
    by (cases "we_thread env") auto
  then show ?thesis
    using typed assms(2) by (simp add: WIN32_SSL_password_prompt_def buf_strlen_nul del: append_Nil)
qed

text \<open>
  C27: on Windows the prompt, whenever the dialog ends, stays in the buffer of
  \<open>SSL_MAX_PASSWORD_LEN\<close> bytes and leaves in it the typed text up to the first line feed or
  carriage return, terminated by NUL; for a text without carriage return, password and result
  are those of the prompt on the other platforms.
\<close>

theorem SSL_password_prompt_WIN32_text:
  assumes "window_text_contract env" and "length password = SSL_MAX_PASSWORD_LEN"
    and "typed_in_dialog env s typed"
  shows "\<exists>rv s' buf. SSL_password_prompt_WIN32 env s password = Some (Inr (rv, s', buf)) \<and>
    length buf = SSL_MAX_PASSWORD_LEN \<and> 0 \<in> set buf \<and>
    c_str buf = takeWhile (\<lambda>b. b \<noteq> 10 \<and> b \<noteq> 13) typed \<and>
    (13 \<notin> set typed \<longrightarrow> (rv, c_str buf) = map_prod id pw_password (SSL_password_prompt typed cb))"
proof -
  obtain rest where pass: "wrn password 0 [0] = Inr (0 # rest)" "length rest = 255"
    using assms(2) by (cases password) (auto simp: wrn_def SSL_MAX_PASSWORD_LEN_def)
  obtain s' rest1 where nul: "0 \<notin> set typed"
    and r: "WIN32_SSL_password_prompt env s (0 # rest) = Some (Inr (int (length typed), s', typed @ 0 # rest1))"
      "length (typed @ 0 # rest1) = 256"
    using WIN32_SSL_password_prompt_text [OF assms(1) pass(2) assms(3)] by blast
  let ?text = "takeWhile (\<lambda>b. b \<noteq> 10 \<and> b \<noteq> 13) typed"
  let ?rv = "int (length typed) - (if 10 \<in> set typed then 1 else 0)
    - (if 13 \<in> set (takeWhile (\<lambda>b. b \<noteq> 10) typed) then 1 else 0)"
  obtain rest2 where c: "cut_at 13 (cut_at 10 (int (length typed), typed @ 0 # rest1)) = (?rv, ?text @ 0 # rest2)"
    "length (?text @ 0 # rest2) = length (typed @ 0 # rest1)"
    using cut_newlines [OF nul, of "int (length typed)" rest1] by blast
  have res: "SSL_password_prompt_WIN32 env s password = Some (Inr (?rv, s', ?text @ 0 # (if typed = [] then rest1 else rest2)))"
    by (simp add: SSL_password_prompt_WIN32_def pass(1) r(1) buf_strlen_nul [OF nul] c(1))
  have plain: "c_str (?text @ 0 # x) = ?text" for x
    by (rule c_str_append_nul) (use nul in \<open>auto dest: set_takeWhileD\<close>)
  have other: "map_prod id pw_password (SSL_password_prompt typed cb)
      = (int (length typed) - (if 10 \<in> set typed then 1 else 0), takeWhile (\<lambda>b. b \<noteq> 10) typed)"
    by (auto simp: SSL_password_prompt_def Let_def intro!: takeWhile_all [symmetric])
  have cr: "13 \<notin> set typed \<Longrightarrow> 13 \<notin> set (takeWhile (\<lambda>b. b \<noteq> 10) typed)"
    by (auto dest: set_takeWhileD)
  have len: "length (?text @ 0 # (if typed = [] then rest1 else rest2)) = SSL_MAX_PASSWORD_LEN"
    using c(2) r(2) by (cases typed) (simp_all add: SSL_MAX_PASSWORD_LEN_def)
  have eq: "(?rv, ?text) = map_prod id pw_password (SSL_password_prompt typed cb)" if "13 \<notin> set typed"
    unfolding other using cr [OF that] takeWhile_no_cr [OF that] by simp
  show ?thesis
    proof (intro exI conjI impI)
    show "SSL_password_prompt_WIN32 env s password
        = Some (Inr (?rv, s', ?text @ 0 # (if typed = [] then rest1 else rest2)))" by (rule res)
  qed (use len eq in \<open>simp_all only: plain, simp_all\<close>)
qed

definition sample_win :: win_env where
  "sample_win = \<lparr>we_thread = True, we_open_station = Some 7, we_open_desktop = Some 8, we_create_dialog = (\<lambda>_. True),
     we_message = (\<lambda>n. if n = 2 then Some \<lparr>msg_message = WM_KEYUP, msg_wParam = 0x0D\<rparr> else None),
     we_dlg_item = True, we_text = (\<lambda>_ n. take (n - 1) [115, 101, 99])\<rparr>"

definition win_start :: win_state where
  "win_start = \<lparr>ws_section = False, ws_instance = None, ws_station = 1, ws_desktop = 2, ws_handles = [], ws_dialog = False\<rparr>"

theorem SSL_password_prompt_WIN32_text_witness:
  "\<exists>rv s' buf. SSL_password_prompt_WIN32 sample_win win_start (replicate 256 0) = Some (Inr (rv, s', buf)) \<and>
    c_str buf = [115, 101, 99]"
proof -
  have contract: "window_text_contract sample_win"
    by (auto simp: window_text_contract_def sample_win_def dest: in_set_takeD)
  have len: "length (replicate 256 (0 :: byte)) = SSL_MAX_PASSWORD_LEN" by (simp add: SSL_MAX_PASSWORD_LEN_def)
  have key: "closing (we_message sample_win 2) = Some Returned"
    by (simp add: sample_win_def closing_def virt_key_def win_constants)
  have early: "\<forall>j < 2. closing (we_message sample_win j) = None"
    by (simp add: sample_win_def closing_def)
  have plain: "we_text sample_win calls (SSL_MAX_PASSWORD_LEN - 1) = [115, 101, 99]" for calls
    by (simp add: sample_win_def SSL_MAX_PASSWORD_LEN_def)
  have shown: "dialog_shown sample_win win_start" "we_dlg_item sample_win"
    by (simp_all add: dialog_shown_def sample_win_def)
  have "typed_in_dialog sample_win win_start [115, 101, 99]"
    unfolding typed_in_dialog_def
    using key early plain shown by auto
  from SSL_password_prompt_WIN32_text [OF contract len this, of undefined] show ?thesis by auto
qed

text \<open>
  C29: when the prompt has returned, the process is back in its own window station and all
  handles that were opened are closed, except when the dialog could not be created: then the
  window station stays that of the user and both handles stay open.
\<close>

theorem SSL_password_prompt_WIN32_restores_iff:
  assumes "SSL_password_prompt_WIN32 env s password = Some (Inr (rv, s', buf))"
  shows "ws_station s' = ws_station s \<and> ws_handles s' = ws_handles s \<longleftrightarrow>
    \<not> (we_thread env \<and> we_open_station env \<noteq> None \<and> we_open_desktop env \<noteq> None \<and> \<not> dialog_shown env s)"
proof -
  have "(ws_station s' = ws_station s \<and> ws_handles s' = ws_handles s) \<longleftrightarrow>
      \<not> (we_open_station env \<noteq> None \<and> we_open_desktop env \<noteq> None \<and> \<not> dialog_shown env s)"
    if "we_thread env" and "password_thread env s b = Some (Inr (k, s', b'))" for b b' k
  proof (cases "dialog_shown env s")
    case True
    from that(2) show ?thesis
      unfolding password_thread_shown [OF True] using True
      by (auto simp: run_simps split: Option.bind_splits)
  next
    case False
    with that show ?thesis
      by (auto simp: dialog_shown_def password_thread_def Let_def CloseHandle_def split: option.split_asm)
  qed
  then show ?thesis
    using assms
    by (auto simp: SSL_password_prompt_WIN32_def WIN32_SSL_password_prompt_def run_simps split: sum.split_asm if_split_asm
        Option.bind_splits prod.split_asm)
qed

theorem SSL_password_prompt_WIN32_restores_iff_witness:
  "\<exists>rv s' buf. SSL_password_prompt_WIN32 (sample_win\<lparr>we_create_dialog := \<lambda>_. False\<rparr>) win_start [0] = Some (Inr (rv, s', buf)) \<and>
    \<not> (ws_station s' = ws_station win_start \<and> ws_handles s' = ws_handles win_start)"
proof -
  let ?env = "sample_win\<lparr>we_create_dialog := \<lambda>_. False\<rparr>"
  have env: "we_thread ?env" "we_open_station ?env \<noteq> None" "we_open_desktop ?env \<noteq> None" "\<not> dialog_shown ?env win_start"
    by (simp_all add: sample_win_def dialog_shown_def)
  obtain r where r: "SSL_password_prompt_WIN32 ?env win_start [0] = Some (Inr r)"
    by (simp add: SSL_password_prompt_WIN32_def WIN32_SSL_password_prompt_def password_thread_def sample_win_def wrn_def
        buf_strlen_def strlen_def c_str_def Let_def)
  obtain rv s' buf where "r = (rv, s', buf)" by (cases r)
  with SSL_password_prompt_WIN32_restores_iff [of ?env win_start "[0]" rv s' buf] r env show ?thesis by blast
qed

end
